theory Spec2Isabelle
  imports Main "HOL-Library.RBT" "HOL-Library.List_Lexorder" "HOL-Library.Char_ord" "HOL-Library.Word"
begin

section \<open>The dynamic whitelist bridge of ros1\_bridge\<close>

text \<open>
  A shallow embedding of \<^verbatim>\<open>src/dynamic_whitelist_bridge.cpp\<close>: the whitelist matcher
  \<^verbatim>\<open>check_inregex_list\<close>, the reconciler \<^verbatim>\<open>update_bridge\<close>, the service type probe
  \<^verbatim>\<open>get_ros1_service_info\<close> and the name filters of the two poll lambdas of \<^verbatim>\<open>main\<close>.

  A \<^verbatim>\<open>std::map<std::string, V>\<close> is a red-black tree \<open>(string, V) rbt\<close>: its keys are
  unique and \<open>RBT.entries\<close> lists it in key order, which is the order a range-based
  \<^verbatim>\<open>for\<close> visits it. A \<^verbatim>\<open>std::set<std::string>\<close> that is only tested and extended is a
  \<open>string set\<close>. What the file calls in ROS 1, ROS 2 and the \<^verbatim>\<open>ros1_bridge\<close> library is
  not part of it and is a parameter of the model.
\<close>

subsection \<open>Whitelist matcher\<close>

text \<open>
  The loop of \<^verbatim>\<open>check_inregex_list\<close> over the pattern list. \<open>regex_match\<close> stands for
  \<^verbatim>\<open>std::regex_match\<close> on a compiled pattern of type \<open>'r\<close>. The third component of the
  result lists the patterns \<open>regex_match\<close> was evaluated on, in order.
\<close>

fun match_loop ::
  "(string \<Rightarrow> 'r \<Rightarrow> bool) \<Rightarrow> 'r list \<Rightarrow> string \<Rightarrow> string set \<Rightarrow> 'r list
     \<Rightarrow> bool \<times> string set \<times> 'r list" where
  "match_loop regex_match [] name known_set evaluated = (False, known_set, evaluated)"
| "match_loop regex_match (rgxp # rest) name known_set evaluated =
     (if regex_match name rgxp
      then (True, insert name known_set, evaluated @ [rgxp])
      else match_loop regex_match rest name known_set (evaluated @ [rgxp]))"

definition check_inregex_list ::
  "(string \<Rightarrow> 'r \<Rightarrow> bool) \<Rightarrow> 'r list \<Rightarrow> string \<Rightarrow> string set \<Rightarrow> bool \<times> string set \<times> 'r list" where
  "check_inregex_list regex_match regex_list name known_set =
     (if name \<in> known_set then (True, known_set, [])
      else match_loop regex_match regex_list name known_set [])"

text \<open>
  The cache after a sequence of further calls, each with its own pattern list and name:
  the only way the program touches a known-match set.
\<close>

fun check_sequence ::
  "(string \<Rightarrow> 'r \<Rightarrow> bool) \<Rightarrow> ('r list \<times> string) list \<Rightarrow> string set \<Rightarrow> string set" where
  "check_sequence regex_match [] known_set = known_set"
| "check_sequence regex_match ((regex_list, name) # later) known_set =
     check_sequence regex_match later
       (fst (snd (check_inregex_list regex_match regex_list name known_set)))"

subsection \<open>Bridge registry and external collaborators\<close>

text \<open>
  \<^verbatim>\<open>Bridge1to2HandlesAndMessageTypes\<close> and \<^verbatim>\<open>Bridge2to1HandlesAndMessageTypes\<close> have the same
  three fields and differ in the type of the handles only, which is the parameter \<open>'h\<close>.
\<close>

record 'h BridgeHandlesAndMessageTypes =
  bridge_handles :: 'h
  ros1_type_name :: string
  ros2_type_name :: string

text \<open>
  A call that throws \<^verbatim>\<open>std::runtime_error\<close> returns \<open>Inl\<close> of the message (\<^verbatim>\<open>e.what()\<close>).
  \<^verbatim>\<open>ServiceFactoryInterface\<close> has the two methods that \<^verbatim>\<open>update_bridge\<close> calls; its node
  arguments are fixed for the process and left out.
\<close>

record ('s12, 's21) ServiceFactoryInterface =
  service_bridge_1_to_2 :: "string \<Rightarrow> string + 's12"
  service_bridge_2_to_1 :: "string \<Rightarrow> string + 's21"

text \<open>
  The functions of namespace \<^verbatim>\<open>ros1_bridge\<close> and of ROS that \<^verbatim>\<open>update_bridge\<close> calls.
  \<open>get_1to2_mapping\<close> returns the mapped type when the C++ function returns true.
  \<open>create_bridge_from_1_to_2\<close> takes the ROS 1 type, topic and queue size and then the ROS 2
  ones; \<open>create_bridge_from_2_to_1\<close> the ROS 2 ones first. \<open>get_service_factory\<close> returns
  \<open>None\<close> for a null pointer. \<open>server_shutdown_throws b k\<close> says whether the call number
  \<open>k\<close> (from 0, within one pass) of \<^verbatim>\<open>server.shutdown()\<close> on the service bridge \<open>b\<close>
  throws \<^verbatim>\<open>std::runtime_error\<close>.
\<close>

record ('h12, 'h21, 's12, 's21) ros1_bridge =
  get_1to2_mapping :: "string \<Rightarrow> string option"
  get_2to1_mapping :: "string \<Rightarrow> string option"
  create_bridge_from_1_to_2 :: "string \<Rightarrow> string \<Rightarrow> nat \<Rightarrow> string \<Rightarrow> string \<Rightarrow> nat \<Rightarrow> string + 'h12"
  create_bridge_from_2_to_1 :: "string \<Rightarrow> string \<Rightarrow> nat \<Rightarrow> string \<Rightarrow> string \<Rightarrow> nat \<Rightarrow> string + 'h21"
  get_service_factory :: "string \<Rightarrow> string \<Rightarrow> string \<Rightarrow> ('s12, 's21) ServiceFactoryInterface option"
  server_shutdown_throws :: "'s12 \<Rightarrow> nat \<Rightarrow> bool"

text \<open>
  What a pass does to the outside and to the registry, in order: the calls of the bridge
  factory (with the topic or service name and the types passed), the erasures from the four
  maps, and the shutdown calls.
\<close>

datatype call =
    Create_bridge_from_1_to_2 string string string
  | Create_bridge_from_2_to_1 string string string
  | Erase_bridges_1to2 string
  | Erase_bridges_2to1 string
  | Get_service_factory string string string
  | Service_bridge_2_to_1 string
  | Service_bridge_1_to_2 string
  | Erase_service_bridges_2_to_1 string
  | Erase_service_bridges_1_to_2 string
  | Server_shutdown string

text \<open>
  The four bridge maps of \<^verbatim>\<open>main\<close>, which \<^verbatim>\<open>update_bridge\<close> takes by reference, and the
  calls made so far.
\<close>

record ('h12, 'h21, 's12, 's21) registry =
  bridges_1to2 :: "(string, 'h12 BridgeHandlesAndMessageTypes) rbt"
  bridges_2to1 :: "(string, 'h21 BridgeHandlesAndMessageTypes) rbt"
  service_bridges_1_to_2 :: "(string, 's12) rbt"
  service_bridges_2_to_1 :: "(string, 's21) rbt"
  calls :: "call list"

text \<open>
  An exception that leaves \<^verbatim>\<open>update_bridge\<close> or \<^verbatim>\<open>get_ros1_service_info\<close>: nothing in the
  file catches it. \<open>Out_of_range\<close> is the \<^verbatim>\<open>std::out_of_range\<close> of \<^verbatim>\<open>std::map::at\<close>.
  \<open>Invalid_iterator_range\<close> stands for building a string from the iterators
  \<^verbatim>\<open>t.begin()\<close> and \<^verbatim>\<open>t.begin() + std::string::npos\<close>, which C++ leaves undefined
  (libstdc++ throws \<^verbatim>\<open>std::length_error\<close>). \<open>Empty_vector_index\<close> stands for
  \<^verbatim>\<open>second[0]\<close> on an empty vector of types.
\<close>

datatype error = Out_of_range | Invalid_iterator_range | Empty_vector_index

subsection \<open>Reconciler: topics\<close>

text \<open>
  Lines 195-211: the ROS 2 type wanted for a ROS 1 publisher; \<open>None\<close> is \<^verbatim>\<open>continue\<close>.
\<close>

definition wanted_ros2_type ::
  "('h12, 'h21, 's12, 's21) ros1_bridge \<Rightarrow> (string, string) rbt \<Rightarrow> bool \<Rightarrow> string \<Rightarrow> string \<Rightarrow> string option" where
  "wanted_ros2_type env ros2_subscribers bridge_all_1to2_topics topic_name ros1_type =
     (case RBT.lookup ros2_subscribers topic_name of
        None \<Rightarrow> if \<not> bridge_all_1to2_topics then None else get_1to2_mapping env ros1_type
      | Some ros2_type \<Rightarrow> Some ros2_type)"

text \<open>Lines 226-249: the creation attempt; a failed one logs and leaves no entry.\<close>

definition create_1to2 ::
  "('h12, 'h21, 's12, 's21) ros1_bridge \<Rightarrow> string \<Rightarrow> string \<Rightarrow> string
     \<Rightarrow> ('h12, 'h21, 's12, 's21) registry \<Rightarrow> ('h12, 'h21, 's12, 's21) registry" where
  "create_1to2 env topic_name ros1_type ros2_type s =
     (case create_bridge_from_1_to_2 env ros1_type topic_name 10 ros2_type topic_name 10 of
        Inl what \<Rightarrow> s\<lparr>calls := calls s @ [Create_bridge_from_1_to_2 topic_name ros1_type ros2_type]\<rparr>
      | Inr handles \<Rightarrow>
          s\<lparr>bridges_1to2 :=
               RBT.insert topic_name
                 \<lparr>bridge_handles = handles, ros1_type_name = ros1_type, ros2_type_name = ros2_type\<rparr>
                 (bridges_1to2 s),
            calls := calls s @ [Create_bridge_from_1_to_2 topic_name ros1_type ros2_type]\<rparr>)"

text \<open>The body of the loop over \<^verbatim>\<open>ros1_publishers\<close> (lines 189-250).\<close>

fun bridge_1to2_step ::
  "('h12, 'h21, 's12, 's21) ros1_bridge \<Rightarrow> (string, string) rbt \<Rightarrow> bool \<Rightarrow> string \<times> string
     \<Rightarrow> ('h12, 'h21, 's12, 's21) registry \<Rightarrow> ('h12, 'h21, 's12, 's21) registry" where
  "bridge_1to2_step env ros2_subscribers bridge_all_1to2_topics (topic_name, ros1_type) s =
     (case wanted_ros2_type env ros2_subscribers bridge_all_1to2_topics topic_name ros1_type of
        None \<Rightarrow> s
      | Some ros2_type \<Rightarrow>
          (case RBT.lookup (bridges_1to2 s) topic_name of
             None \<Rightarrow> create_1to2 env topic_name ros1_type ros2_type s
           | Some bridge \<Rightarrow>
               if ros1_type_name bridge = ros1_type \<and> ros2_type_name bridge = ros2_type then s
               else create_1to2 env topic_name ros1_type ros2_type
                      (s\<lparr>bridges_1to2 := RBT.delete topic_name (bridges_1to2 s),
                         calls := calls s @ [Erase_bridges_1to2 topic_name]\<rparr>)))"

text \<open>Lines 259-275: the ROS 1 type wanted for a ROS 2 publisher.\<close>

definition wanted_ros1_type ::
  "('h12, 'h21, 's12, 's21) ros1_bridge \<Rightarrow> (string, string) rbt \<Rightarrow> bool \<Rightarrow> string \<Rightarrow> string \<Rightarrow> string option" where
  "wanted_ros1_type env ros1_subscribers bridge_all_2to1_topics topic_name ros2_type =
     (case RBT.lookup ros1_subscribers topic_name of
        None \<Rightarrow> if \<not> bridge_all_2to1_topics then None else get_2to1_mapping env ros2_type
      | Some ros1_type \<Rightarrow> Some ros1_type)"

definition create_2to1 ::
  "('h12, 'h21, 's12, 's21) ros1_bridge \<Rightarrow> string \<Rightarrow> string \<Rightarrow> string
     \<Rightarrow> ('h12, 'h21, 's12, 's21) registry \<Rightarrow> ('h12, 'h21, 's12, 's21) registry" where
  "create_2to1 env topic_name ros2_type ros1_type s =
     (case create_bridge_from_2_to_1 env ros2_type topic_name 10 ros1_type topic_name 10 of
        Inl what \<Rightarrow> s\<lparr>calls := calls s @ [Create_bridge_from_2_to_1 topic_name ros2_type ros1_type]\<rparr>
      | Inr handles \<Rightarrow>
          s\<lparr>bridges_2to1 :=
               RBT.insert topic_name
                 \<lparr>bridge_handles = handles, ros1_type_name = ros1_type, ros2_type_name = ros2_type\<rparr>
                 (bridges_2to1 s),
            calls := calls s @ [Create_bridge_from_2_to_1 topic_name ros2_type ros1_type]\<rparr>)"

text \<open>
  The body of the loop over \<^verbatim>\<open>ros2_publishers\<close> (lines 253-315). The test of line 281
  also accepts an entry whose recorded ROS 1 type is the empty string.
\<close>

fun bridge_2to1_step ::
  "('h12, 'h21, 's12, 's21) ros1_bridge \<Rightarrow> (string, string) rbt \<Rightarrow> bool \<Rightarrow> string \<times> string
     \<Rightarrow> ('h12, 'h21, 's12, 's21) registry \<Rightarrow> ('h12, 'h21, 's12, 's21) registry" where
  "bridge_2to1_step env ros1_subscribers bridge_all_2to1_topics (topic_name, ros2_type) s =
     (case wanted_ros1_type env ros1_subscribers bridge_all_2to1_topics topic_name ros2_type of
        None \<Rightarrow> s
      | Some ros1_type \<Rightarrow>
          (case RBT.lookup (bridges_2to1 s) topic_name of
             None \<Rightarrow> create_2to1 env topic_name ros2_type ros1_type s
           | Some bridge \<Rightarrow>
               if (ros1_type_name bridge = ros1_type \<or> ros1_type_name bridge = '''') \<and>
                  ros2_type_name bridge = ros2_type then s
               else create_2to1 env topic_name ros2_type ros1_type
                      (s\<lparr>bridges_2to1 := RBT.delete topic_name (bridges_2to1 s),
                         calls := calls s @ [Erase_bridges_2to1 topic_name]\<rparr>)))"

subsection \<open>Reconciler: services\<close>

text \<open>\<^verbatim>\<open>details.at(key)\<close>: \<^verbatim>\<open>std::map::at\<close> throws when the key is missing.\<close>

definition at_key :: "(string, string) rbt \<Rightarrow> string \<Rightarrow> error + string" where
  "at_key details k = (case RBT.lookup details k of None \<Rightarrow> Inl Out_of_range | Some v \<Rightarrow> Inr v)"

text \<open>
  The body of the loop over \<^verbatim>\<open>ros1_services\<close> (lines 351-372). The result pairs the
  exception that escapes, if any, with the registry as the step leaves it. In
  \<^verbatim>\<open>service_bridges_2_to_1[name] = factory->service_bridge_2_to_1(...)\<close> the right-hand side
  is evaluated first (C++17), so a throwing factory leaves no entry.
\<close>

fun ros1_service_step ::
  "('h12, 'h21, 's12, 's21) ros1_bridge \<Rightarrow> string \<times> (string, string) rbt
     \<Rightarrow> ('h12, 'h21, 's12, 's21) registry \<Rightarrow> error option \<times> ('h12, 'h21, 's12, 's21) registry" where
  "ros1_service_step env (name, details) s =
     (if RBT.lookup (service_bridges_2_to_1 s) name = None \<and>
         RBT.lookup (service_bridges_1_to_2 s) name = None
      then (case at_key details ''package'' of
              Inl e \<Rightarrow> (Some e, s)
            | Inr package \<Rightarrow>
          (case at_key details ''name'' of
              Inl e \<Rightarrow> (Some e, s)
            | Inr type_name \<Rightarrow>
          (case get_service_factory env ''ros1'' package type_name of
              None \<Rightarrow> (None, s\<lparr>calls := calls s @ [Get_service_factory ''ros1'' package type_name]\<rparr>)
            | Some factory \<Rightarrow>
          (case service_bridge_2_to_1 factory name of
              Inl what \<Rightarrow>
                (None, s\<lparr>calls := calls s @
                   [Get_service_factory ''ros1'' package type_name, Service_bridge_2_to_1 name]\<rparr>)
            | Inr bridge \<Rightarrow>
                (None, s\<lparr>service_bridges_2_to_1 := RBT.insert name bridge (service_bridges_2_to_1 s),
                         calls := calls s @
                   [Get_service_factory ''ros1'' package type_name, Service_bridge_2_to_1 name]\<rparr>)))))
      else (None, s))"

fun create_ros1_services ::
  "('h12, 'h21, 's12, 's21) ros1_bridge \<Rightarrow> (string \<times> (string, string) rbt) list
     \<Rightarrow> ('h12, 'h21, 's12, 's21) registry \<Rightarrow> error option \<times> ('h12, 'h21, 's12, 's21) registry" where
  "create_ros1_services env [] s = (None, s)"
| "create_ros1_services env (service # rest) s =
     (case ros1_service_step env service s of
        (Some e, s') \<Rightarrow> (Some e, s')
      | (None, s') \<Rightarrow> create_ros1_services env rest s')"

text \<open>The body of the loop over \<^verbatim>\<open>ros2_services\<close> (lines 375-396).\<close>

fun ros2_service_step ::
  "('h12, 'h21, 's12, 's21) ros1_bridge \<Rightarrow> string \<times> (string, string) rbt
     \<Rightarrow> ('h12, 'h21, 's12, 's21) registry \<Rightarrow> error option \<times> ('h12, 'h21, 's12, 's21) registry" where
  "ros2_service_step env (name, details) s =
     (if RBT.lookup (service_bridges_1_to_2 s) name = None \<and>
         RBT.lookup (service_bridges_2_to_1 s) name = None
      then (case at_key details ''package'' of
              Inl e \<Rightarrow> (Some e, s)
            | Inr package \<Rightarrow>
          (case at_key details ''name'' of
              Inl e \<Rightarrow> (Some e, s)
            | Inr type_name \<Rightarrow>
          (case get_service_factory env ''ros2'' package type_name of
              None \<Rightarrow> (None, s\<lparr>calls := calls s @ [Get_service_factory ''ros2'' package type_name]\<rparr>)
            | Some factory \<Rightarrow>
          (case service_bridge_1_to_2 factory name of
              Inl what \<Rightarrow>
                (None, s\<lparr>calls := calls s @
                   [Get_service_factory ''ros2'' package type_name, Service_bridge_1_to_2 name]\<rparr>)
            | Inr bridge \<Rightarrow>
                (None, s\<lparr>service_bridges_1_to_2 := RBT.insert name bridge (service_bridges_1_to_2 s),
                         calls := calls s @
                   [Get_service_factory ''ros2'' package type_name, Service_bridge_1_to_2 name]\<rparr>)))))
      else (None, s))"

fun create_ros2_services ::
  "('h12, 'h21, 's12, 's21) ros1_bridge \<Rightarrow> (string \<times> (string, string) rbt) list
     \<Rightarrow> ('h12, 'h21, 's12, 's21) registry \<Rightarrow> error option \<times> ('h12, 'h21, 's12, 's21) registry" where
  "create_ros2_services env [] s = (None, s)"
| "create_ros2_services env (service # rest) s =
     (case ros2_service_step env service s of
        (Some e, s') \<Rightarrow> (Some e, s')
      | (None, s') \<Rightarrow> create_ros2_services env rest s')"

text \<open>
  Lines 399-410. The iterator walks the entries the map has when the loop starts; erasing
  one entry does not move the others. \<^verbatim>\<open>std::map::erase\<close> of an iterator does not throw,
  so the handler of line 404 is never entered.
\<close>

fun remove_obsolete_ros1_services ::
  "(string, (string, string) rbt) rbt \<Rightarrow> (string \<times> 's21) list
     \<Rightarrow> ('h12, 'h21, 's12, 's21) registry \<Rightarrow> ('h12, 'h21, 's12, 's21) registry" where
  "remove_obsolete_ros1_services ros1_services [] s = s"
| "remove_obsolete_ros1_services ros1_services ((name, bridge) # rest) s =
     (if RBT.lookup ros1_services name = None
      then remove_obsolete_ros1_services ros1_services rest
             (s\<lparr>service_bridges_2_to_1 := RBT.delete name (service_bridges_2_to_1 s),
                calls := calls s @ [Erase_service_bridges_2_to_1 name]\<rparr>)
      else remove_obsolete_ros1_services ros1_services rest s)"

text \<open>
  Lines 413-425. When \<^verbatim>\<open>server.shutdown()\<close> throws, the handler logs and the iterator is
  neither advanced nor reassigned, so the next round of the loop is at the same entry;
  \<open>attempt\<close> counts the shutdown calls made on it. The loop returns only when every
  obsolete entry has been shut down without an exception: not returning is \<open>None\<close>.
\<close>

partial_function (option) remove_obsolete_ros2_services ::
  "('h12, 'h21, 's12, 's21) ros1_bridge \<Rightarrow> (string, (string, string) rbt) rbt \<Rightarrow> (string \<times> 's12) list
     \<Rightarrow> nat \<Rightarrow> ('h12, 'h21, 's12, 's21) registry \<Rightarrow> ('h12, 'h21, 's12, 's21) registry option" where
  [code]: "remove_obsolete_ros2_services env ros2_services it attempt s =
     (case it of
        [] \<Rightarrow> Some s
      | (name, bridge) # rest \<Rightarrow>
          if RBT.lookup ros2_services name = None
          then if server_shutdown_throws env bridge attempt
               then remove_obsolete_ros2_services env ros2_services it (Suc attempt)
                      (s\<lparr>calls := calls s @ [Server_shutdown name]\<rparr>)
               else remove_obsolete_ros2_services env ros2_services rest 0
                      (s\<lparr>service_bridges_1_to_2 := RBT.delete name (service_bridges_1_to_2 s),
                         calls := calls s @ [Server_shutdown name, Erase_service_bridges_1_to_2 name]\<rparr>)
          else remove_obsolete_ros2_services env ros2_services rest 0 s)"

subsection \<open>Reconciler: one pass\<close>

text \<open>
  \<^verbatim>\<open>update_bridge\<close>, with the arguments of the C++ function in their order (the two node
  handles are in \<open>env\<close>). The result is \<open>None\<close> when the pass does not return, and otherwise
  the exception that left the function, if any, with the registry as the pass leaves it.
  The lock of line 186 is held for the whole call and has no part in the result.
\<close>

definition update_bridge ::
  "('h12, 'h21, 's12, 's21) ros1_bridge
     \<Rightarrow> (string, string) rbt \<Rightarrow> (string, string) rbt
     \<Rightarrow> (string, string) rbt \<Rightarrow> (string, string) rbt
     \<Rightarrow> (string, (string, string) rbt) rbt \<Rightarrow> (string, (string, string) rbt) rbt
     \<Rightarrow> ('h12, 'h21, 's12, 's21) registry \<Rightarrow> bool \<Rightarrow> bool
     \<Rightarrow> (error option \<times> ('h12, 'h21, 's12, 's21) registry) option" where
  "update_bridge env ros1_publishers ros1_subscribers ros2_publishers ros2_subscribers
       ros1_services ros2_services s bridge_all_1to2_topics bridge_all_2to1_topics =
     (let s1 = fold (bridge_1to2_step env ros2_subscribers bridge_all_1to2_topics)
                 (RBT.entries ros1_publishers) s;
          s2 = fold (bridge_2to1_step env ros1_subscribers bridge_all_2to1_topics)
                 (RBT.entries ros2_publishers) s1
      in case create_ros1_services env (RBT.entries ros1_services) s2 of
           (Some e, s3) \<Rightarrow> Some (Some e, s3)
         | (None, s3) \<Rightarrow>
        (case create_ros2_services env (RBT.entries ros2_services) s3 of
           (Some e, s4) \<Rightarrow> Some (Some e, s4)
         | (None, s4) \<Rightarrow>
             (let s5 = remove_obsolete_ros1_services ros1_services
                         (RBT.entries (service_bridges_2_to_1 s4)) s4
              in map_option (Pair None)
                   (remove_obsolete_ros2_services env ros2_services
                      (RBT.entries (service_bridges_1_to_2 s5)) 0 s5))))"

subsection \<open>Sequences of passes\<close>

text \<open>
  The six snapshot maps of \<^verbatim>\<open>main\<close> (lines 524-529) as they are when a poll lambda calls
  \<^verbatim>\<open>update_bridge\<close>: \<^verbatim>\<open>ros1_publishers\<close>, \<^verbatim>\<open>ros1_subscribers\<close>, \<^verbatim>\<open>ros2_publishers\<close>,
  \<^verbatim>\<open>ros2_subscribers\<close>, \<^verbatim>\<open>ros1_services\<close> and \<^verbatim>\<open>ros2_services\<close>.
\<close>

record snapshots =
  ros1_pubs :: "(string, string) rbt"
  ros1_subs :: "(string, string) rbt"
  ros2_pubs :: "(string, string) rbt"
  ros2_subs :: "(string, string) rbt"
  ros1_srvs :: "(string, (string, string) rbt) rbt"
  ros2_srvs :: "(string, (string, string) rbt) rbt"

text \<open>
  The passes of a run, one for each poll, each with the snapshots of that moment and with
  what the bridge factory does at that moment. The two flags are fixed when the process
  starts. A pass that does not return, or that an exception leaves, is the last one.
\<close>

fun run_passes ::
  "bool \<Rightarrow> bool \<Rightarrow> (('h12, 'h21, 's12, 's21) ros1_bridge \<times> snapshots) list
     \<Rightarrow> ('h12, 'h21, 's12, 's21) registry
     \<Rightarrow> (error option \<times> ('h12, 'h21, 's12, 's21) registry) option" where
  "run_passes bridge_all_1to2_topics bridge_all_2to1_topics [] s = Some (None, s)"
| "run_passes bridge_all_1to2_topics bridge_all_2to1_topics ((env, snap) # later) s =
     (case update_bridge env (ros1_pubs snap) (ros1_subs snap) (ros2_pubs snap) (ros2_subs snap)
             (ros1_srvs snap) (ros2_srvs snap) s bridge_all_1to2_topics bridge_all_2to1_topics of
        None \<Rightarrow> None
      | Some (Some e, s') \<Rightarrow> Some (Some e, s')
      | Some (None, s') \<Rightarrow> run_passes bridge_all_1to2_topics bridge_all_2to1_topics later s')"

text \<open>The four maps as \<^verbatim>\<open>main\<close> declares them (lines 531-534), with no call made yet.\<close>

definition empty_registry :: "('h12, 'h21, 's12, 's21) registry" where
  "empty_registry =
     \<lparr>bridges_1to2 = RBT.empty, bridges_2to1 = RBT.empty,
      service_bridges_1_to_2 = RBT.empty, service_bridges_2_to_1 = RBT.empty, calls = []\<rparr>"

subsection \<open>Service type probe\<close>

text \<open>
  \<^verbatim>\<open>std::string::find\<close> of a one-character string: the index of its first occurrence,
  \<open>None\<close> for \<^verbatim>\<open>std::string::npos\<close>.
\<close>

fun find_first :: "char \<Rightarrow> string \<Rightarrow> nat option" where
  "find_first c [] = None"
| "find_first c (x # xs) = (if x = c then Some 0 else map_option Suc (find_first c xs))"

text \<open>
  What ROS 1 answers during one call of \<^verbatim>\<open>get_ros1_service_info\<close>: the lookup of the
  service (host and port), whether the transport connects, the result of the first
  \<^verbatim>\<open>transport->read\<close> (the count returned and the value left in \<^verbatim>\<open>length\<close>), the result of
  the second read for that length (the count and the bytes), and \<^verbatim>\<open>ros::Header::parse\<close>
  on the bytes (the error message, or the fields of the header). Writing the request has no
  result that the function looks at.
\<close>

record type_probe =
  lookupService :: "string \<Rightarrow> (string \<times> 32 word) option"
  transport_connect :: "string \<Rightarrow> 32 word \<Rightarrow> bool"
  read_length :: "int \<times> 32 word"
  read_response :: "32 word \<Rightarrow> int \<times> 8 word list"
  header_parse :: "8 word list \<Rightarrow> 32 word \<Rightarrow> string + (string, string) rbt"

text \<open>
  \<^verbatim>\<open>ros1_services[key][field] = value\<close>: \<^verbatim>\<open>operator[]\<close> makes an empty descriptor when
  the key is missing.
\<close>

definition set_field ::
  "(string, (string, string) rbt) rbt \<Rightarrow> string \<Rightarrow> string \<Rightarrow> string
     \<Rightarrow> (string, (string, string) rbt) rbt" where
  "set_field services key field v =
     RBT.insert key
       (RBT.insert field v (case RBT.lookup services key of None \<Rightarrow> RBT.empty | Some details \<Rightarrow> details))
       services"

text \<open>
  Lines 495-497. With the separator at index \<open>i\<close> the package is the first \<open>i\<close>
  characters and the name is what follows the separator. Without a separator,
  \<^verbatim>\<open>t.begin() + t.find("/")\<close> is \<^verbatim>\<open>t.begin() + npos\<close>: nothing tests for it.
\<close>

definition split_type ::
  "(string, (string, string) rbt) rbt \<Rightarrow> string \<Rightarrow> string
     \<Rightarrow> error + (string, (string, string) rbt) rbt" where
  "split_type services key t =
     (case find_first CHR ''/'' t of
        None \<Rightarrow> Inl Invalid_iterator_range
      | Some i \<Rightarrow>
          Inr (set_field (set_field services key ''package'' (take i t)) key ''name'' (drop (i + 1) t)))"

text \<open>
  \<^verbatim>\<open>get_ros1_service_info\<close> (lines 428-498). Each early \<^verbatim>\<open>return\<close> is \<open>Inr\<close> of the map as
  it is at that point.
\<close>

definition get_ros1_service_info ::
  "type_probe \<Rightarrow> string \<Rightarrow> (string, (string, string) rbt) rbt
     \<Rightarrow> error + (string, (string, string) rbt) rbt" where
  "get_ros1_service_info ros1 name ros1_services =
     (case lookupService ros1 name of
        None \<Rightarrow> Inr ros1_services
      | Some (host, port) \<Rightarrow>
          if \<not> transport_connect ros1 host port then Inr ros1_services
          else (case read_length ros1 of (read1, len) \<Rightarrow>
            if read1 \<noteq> 4 then Inr ros1_services
            else (case read_response ros1 len of (read2, response) \<Rightarrow>
              if read2 < 0 \<or> (word_of_int read2 :: 32 word) \<noteq> len then Inr ros1_services
              else (case header_parse ros1 response len of
                      Inl error_message \<Rightarrow> Inr (RBT.insert name RBT.empty ros1_services)
                    | Inr header_in \<Rightarrow>
                        (case RBT.lookup header_in ''type'' of
                           None \<Rightarrow> Inr (RBT.delete name (RBT.insert name RBT.empty ros1_services))
                         | Some v \<Rightarrow>
                             split_type
                               (set_field (RBT.insert name RBT.empty ros1_services) name ''type'' v)
                               name v)))))"

text \<open>
  The counterpart in \<^verbatim>\<open>ros2_poll\<close> (lines 857-867), for a service that passed the filters:
  a type without a separator is logged as invalid and the service is skipped.
\<close>

definition ros2_service_entry ::
  "string \<Rightarrow> string \<Rightarrow> (string, (string, string) rbt) rbt \<Rightarrow> (string, (string, string) rbt) rbt" where
  "ros2_service_entry service_name service_type active_ros2_services =
     (case find_first CHR ''/'' service_type of
        None \<Rightarrow> active_ros2_services
      | Some separator_position \<Rightarrow>
          set_field
            (set_field active_ros2_services service_name ''package''
               (take separator_position service_type))
            service_name ''name'' (drop (separator_position + 1) service_type))"

subsection \<open>Name filters of the poll lambdas\<close>

text \<open>
  The sets that a poll lambda keeps between polls for its topic names: in \<^verbatim>\<open>ros1_poll\<close>
  they are \<^verbatim>\<open>already_ignored_ros1_topics\<close> and \<^verbatim>\<open>valid_ros1_topics\<close>, in \<^verbatim>\<open>ros2_poll\<close>
  \<^verbatim>\<open>already_ignored_topics\<close> and \<^verbatim>\<open>valid_ros2_topics\<close>. \<open>offered\<close> lists the names that
  were passed to \<^verbatim>\<open>check_inregex_list\<close> and \<open>ignored_log\<close> the names of the "ignoring
  topic" messages, both in order.
\<close>

record poll_filter =
  already_ignored_topics :: "string set"
  valid_topics :: "string set"
  offered :: "string list"
  ignored_log :: "string list"

text \<open>
  Lines 596-606 (and the same lines 621-631 for subscribers): the whitelist test of one
  topic name with a peer outside the bridge. \<open>active\<close> is \<^verbatim>\<open>active_publishers\<close>
  (\<^verbatim>\<open>active_subscribers\<close>).
\<close>

fun whitelist_gate ::
  "(string \<Rightarrow> 'r \<Rightarrow> bool) \<Rightarrow> 'r list \<Rightarrow> string \<Rightarrow> poll_filter \<times> string set
     \<Rightarrow> poll_filter \<times> string set" where
  "whitelist_gate regex_match regex_list topic_name (f, active) =
     (if topic_name \<notin> already_ignored_topics f
      then (case check_inregex_list regex_match regex_list topic_name (valid_topics f) of
              (True, known_set, evaluated) \<Rightarrow>
                (f\<lparr>valid_topics := known_set, offered := offered f @ [topic_name]\<rparr>,
                 insert topic_name active)
            | (False, known_set, evaluated) \<Rightarrow>
                (f\<lparr>already_ignored_topics := insert topic_name (already_ignored_topics f),
                   valid_topics := known_set, offered := offered f @ [topic_name],
                   ignored_log := ignored_log f @ [topic_name]\<rparr>,
                 active))
      else (f, active))"

text \<open>
  Lines 590-608: the loop over the nodes of one topic skips the bridge's own node and
  stops, after the whitelist test, at the first other node.
\<close>

fun ros1_topic_nodes ::
  "(string \<Rightarrow> 'r \<Rightarrow> bool) \<Rightarrow> 'r list \<Rightarrow> string \<Rightarrow> string \<Rightarrow> string list
     \<Rightarrow> poll_filter \<times> string set \<Rightarrow> poll_filter \<times> string set" where
  "ros1_topic_nodes regex_match regex_list this_node topic_name [] st = st"
| "ros1_topic_nodes regex_match regex_list this_node topic_name (node_name # rest) st =
     (if node_name = this_node
      then ros1_topic_nodes regex_match regex_list this_node topic_name rest st
      else whitelist_gate regex_match regex_list topic_name st)"

text \<open>
  Lines 587-610: the scan of the publisher list \<^verbatim>\<open>payload[0]\<close> of the system state, each
  element a topic name with its node names (lines 612-635 scan \<^verbatim>\<open>payload[1]\<close> in the
  same way).
\<close>

definition ros1_scan ::
  "(string \<Rightarrow> 'r \<Rightarrow> bool) \<Rightarrow> 'r list \<Rightarrow> string \<Rightarrow> (string \<times> string list) list
     \<Rightarrow> poll_filter \<times> string set \<Rightarrow> poll_filter \<times> string set" where
  "ros1_scan regex_match regex_list this_node payload st =
     fold (\<lambda>(topic_name, nodes). ros1_topic_nodes regex_match regex_list this_node topic_name nodes)
       payload st"

definition ignored_topics :: "string set" where
  "ignored_topics = {''parameter_events''}"

text \<open>
  The body of the topic loop of \<^verbatim>\<open>ros2_poll\<close> (lines 753-819) for one topic with its list
  of types. \<open>count_publishers\<close> and \<open>count_subscribers\<close> are the node's counts; \<open>s\<close> holds
  the bridge maps that lines 795 and 801 look the name up in.
\<close>

fun ros2_topic_step ::
  "(string \<Rightarrow> 'r \<Rightarrow> bool) \<Rightarrow> 'r list \<Rightarrow> (string \<Rightarrow> nat) \<Rightarrow> (string \<Rightarrow> nat)
     \<Rightarrow> ('h12, 'h21, 's12, 's21) registry \<Rightarrow> string \<times> string list
     \<Rightarrow> poll_filter \<times> (string, string) rbt \<times> (string, string) rbt
     \<Rightarrow> error + poll_filter \<times> (string, string) rbt \<times> (string, string) rbt" where
  "ros2_topic_step regex_match regex_list count_publishers count_subscribers s (topic_name, types)
       (f, current_ros2_publishers, current_ros2_subscribers) =
     (if topic_name \<in> ignored_topics then Inr (f, current_ros2_publishers, current_ros2_subscribers)
      else (case types of
              [] \<Rightarrow> Inl Empty_vector_index
            | topic_type # other_types \<Rightarrow>
                if length types > 1
                then (if topic_name \<notin> already_ignored_topics f
                      then Inr (f\<lparr>already_ignored_topics := insert topic_name (already_ignored_topics f),
                                  ignored_log := ignored_log f @ [topic_name]\<rparr>,
                                current_ros2_publishers, current_ros2_subscribers)
                      else Inr (f, current_ros2_publishers, current_ros2_subscribers))
                else if topic_name \<notin> already_ignored_topics f
                then (case check_inregex_list regex_match regex_list topic_name (valid_topics f) of
                        (False, known_set, evaluated) \<Rightarrow>
                          Inr (f\<lparr>already_ignored_topics := insert topic_name (already_ignored_topics f),
                                 valid_topics := known_set, offered := offered f @ [topic_name],
                                 ignored_log := ignored_log f @ [topic_name]\<rparr>,
                               current_ros2_publishers, current_ros2_subscribers)
                      | (True, known_set, evaluated) \<Rightarrow>
                          (let publisher_count =
                                 (if RBT.lookup (bridges_1to2 s) topic_name \<noteq> None \<and>
                                     count_publishers topic_name > 0
                                  then count_publishers topic_name - 1
                                  else count_publishers topic_name);
                               subscriber_count =
                                 (if RBT.lookup (bridges_2to1 s) topic_name \<noteq> None \<and>
                                     count_subscribers topic_name > 0
                                  then count_subscribers topic_name - 1
                                  else count_subscribers topic_name)
                           in Inr (f\<lparr>valid_topics := known_set, offered := offered f @ [topic_name]\<rparr>,
                                   (if publisher_count \<noteq> 0
                                    then RBT.insert topic_name topic_type current_ros2_publishers
                                    else current_ros2_publishers),
                                   (if subscriber_count \<noteq> 0
                                    then RBT.insert topic_name topic_type current_ros2_subscribers
                                    else current_ros2_subscribers))))
                else Inr (f, current_ros2_publishers, current_ros2_subscribers)))"

fun ros2_scan ::
  "(string \<Rightarrow> 'r \<Rightarrow> bool) \<Rightarrow> 'r list \<Rightarrow> (string \<Rightarrow> nat) \<Rightarrow> (string \<Rightarrow> nat)
     \<Rightarrow> ('h12, 'h21, 's12, 's21) registry \<Rightarrow> (string \<times> string list) list
     \<Rightarrow> poll_filter \<times> (string, string) rbt \<times> (string, string) rbt
     \<Rightarrow> error + poll_filter \<times> (string, string) rbt \<times> (string, string) rbt" where
  "ros2_scan regex_match regex_list count_publishers count_subscribers s [] st = Inr st"
| "ros2_scan regex_match regex_list count_publishers count_subscribers s (topic_and_types # rest) st =
     (case ros2_topic_step regex_match regex_list count_publishers count_subscribers s
             topic_and_types st of
        Inl e \<Rightarrow> Inl e
      | Inr st' \<Rightarrow> ros2_scan regex_match regex_list count_publishers count_subscribers s rest st')"

subsection \<open>Observing a pass\<close>

text \<open>The calls a pass adds to the record: those of \<open>s'\<close> after the ones \<open>s\<close> had.\<close>

definition calls_of_pass :: "('h12, 'h21, 's12, 's21) registry \<Rightarrow> ('h12, 'h21, 's12, 's21) registry \<Rightarrow> call list" where
  "calls_of_pass s s' = drop (length (calls s)) (calls s')"

text \<open>
  The calls about one topic name in one direction (an erasure from the map, a creation
  attempt), and the calls of the service part of a pass.
\<close>

fun topic_call_1to2 :: "string \<Rightarrow> call \<Rightarrow> bool" where
  "topic_call_1to2 n (Create_bridge_from_1_to_2 topic_name ros1_type ros2_type) = (topic_name = n)"
| "topic_call_1to2 n (Erase_bridges_1to2 topic_name) = (topic_name = n)"
| "topic_call_1to2 n c = False"

fun topic_call_2to1 :: "string \<Rightarrow> call \<Rightarrow> bool" where
  "topic_call_2to1 n (Create_bridge_from_2_to_1 topic_name ros2_type ros1_type) = (topic_name = n)"
| "topic_call_2to1 n (Erase_bridges_2to1 topic_name) = (topic_name = n)"
| "topic_call_2to1 n c = False"

fun service_call :: "call \<Rightarrow> bool" where
  "service_call (Get_service_factory domain package type_name) = True"
| "service_call (Service_bridge_2_to_1 name) = True"
| "service_call (Service_bridge_1_to_2 name) = True"
| "service_call (Erase_service_bridges_2_to_1 name) = True"
| "service_call (Erase_service_bridges_1_to_2 name) = True"
| "service_call (Server_shutdown name) = True"
| "service_call c = False"

text \<open>\<open>s'\<close> has the calls of \<open>s\<close> and then new ones, which all satisfy \<open>P\<close>.\<close>

definition extends_calls ::
  "('h12, 'h21, 's12, 's21) registry \<Rightarrow> ('h12, 'h21, 's12, 's21) registry \<Rightarrow> (call \<Rightarrow> bool) \<Rightarrow> bool" where
  "extends_calls s s' P \<longleftrightarrow> (\<exists>new. calls s' = calls s @ new \<and> (\<forall>c \<in> set new. P c))"

text \<open>
  A service snapshot in which every descriptor has the keys \<^verbatim>\<open>package\<close> and \<^verbatim>\<open>name\<close>
  that lines 358 and 382 read with \<^verbatim>\<open>at\<close>.
\<close>

definition services_well_formed :: "(string, (string, string) rbt) rbt \<Rightarrow> bool" where
  "services_well_formed services \<longleftrightarrow>
     (\<forall>(name, details) \<in> set (RBT.entries services).
        RBT.lookup details ''package'' \<noteq> None \<and> RBT.lookup details ''name'' \<noteq> None)"

text \<open>
  The replacement path of lines 215-224 (and 279-289) is taken for the topic name \<open>n\<close>:
  the map has a bridge for it, the snapshots want one, and the test of line 217 (of
  line 281) fails on the recorded types.
\<close>

definition type_change_1to2 ::
  "('h12, 'h21, 's12, 's21) ros1_bridge \<Rightarrow> (string, string) rbt \<Rightarrow> (string, string) rbt \<Rightarrow> bool
     \<Rightarrow> ('h12, 'h21, 's12, 's21) registry \<Rightarrow> string \<Rightarrow> bool" where
  "type_change_1to2 env ros1_publishers ros2_subscribers bridge_all_1to2_topics s n =
     (case RBT.lookup (bridges_1to2 s) n of
        None \<Rightarrow> False
      | Some bridge \<Rightarrow>
          (case RBT.lookup ros1_publishers n of
             None \<Rightarrow> False
           | Some ros1_type \<Rightarrow>
               (case wanted_ros2_type env ros2_subscribers bridge_all_1to2_topics n ros1_type of
                  None \<Rightarrow> False
                | Some ros2_type \<Rightarrow>
                    \<not> (ros1_type_name bridge = ros1_type \<and> ros2_type_name bridge = ros2_type))))"

definition type_change_2to1 ::
  "('h12, 'h21, 's12, 's21) ros1_bridge \<Rightarrow> (string, string) rbt \<Rightarrow> (string, string) rbt \<Rightarrow> bool
     \<Rightarrow> ('h12, 'h21, 's12, 's21) registry \<Rightarrow> string \<Rightarrow> bool" where
  "type_change_2to1 env ros2_publishers ros1_subscribers bridge_all_2to1_topics s n =
     (case RBT.lookup (bridges_2to1 s) n of
        None \<Rightarrow> False
      | Some bridge \<Rightarrow>
          (case RBT.lookup ros2_publishers n of
             None \<Rightarrow> False
           | Some ros2_type \<Rightarrow>
               (case wanted_ros1_type env ros1_subscribers bridge_all_2to1_topics n ros2_type of
                  None \<Rightarrow> False
                | Some ros1_type \<Rightarrow>
                    \<not> ((ros1_type_name bridge = ros1_type \<or> ros1_type_name bridge = '''') \<and>
                       ros2_type_name bridge = ros2_type))))"

text \<open>
  "A bridge with correct types is already in place" (lines 217-220 and 281-285) for a
  publisher of the snapshot, or no bridge is wanted for it.
\<close>

fun in_place_1to2 ::
  "('h12, 'h21, 's12, 's21) ros1_bridge \<Rightarrow> (string, string) rbt \<Rightarrow> bool
     \<Rightarrow> ('h12, 'h21, 's12, 's21) registry \<Rightarrow> string \<times> string \<Rightarrow> bool" where
  "in_place_1to2 env ros2_subscribers bridge_all_1to2_topics s (topic_name, ros1_type) =
     (case wanted_ros2_type env ros2_subscribers bridge_all_1to2_topics topic_name ros1_type of
        None \<Rightarrow> True
      | Some ros2_type \<Rightarrow>
          (case RBT.lookup (bridges_1to2 s) topic_name of
             None \<Rightarrow> False
           | Some bridge \<Rightarrow> ros1_type_name bridge = ros1_type \<and> ros2_type_name bridge = ros2_type))"

fun in_place_2to1 ::
  "('h12, 'h21, 's12, 's21) ros1_bridge \<Rightarrow> (string, string) rbt \<Rightarrow> bool
     \<Rightarrow> ('h12, 'h21, 's12, 's21) registry \<Rightarrow> string \<times> string \<Rightarrow> bool" where
  "in_place_2to1 env ros1_subscribers bridge_all_2to1_topics s (topic_name, ros2_type) =
     (case wanted_ros1_type env ros1_subscribers bridge_all_2to1_topics topic_name ros2_type of
        None \<Rightarrow> True
      | Some ros1_type \<Rightarrow>
          (case RBT.lookup (bridges_2to1 s) topic_name of
             None \<Rightarrow> False
           | Some bridge \<Rightarrow>
               (ros1_type_name bridge = ros1_type \<or> ros1_type_name bridge = '''') \<and>
               ros2_type_name bridge = ros2_type))"

text \<open>
  The registry reflects the snapshots: every topic bridge the snapshots want is in place,
  every listed service has a bridge in one of the two service maps, and every service
  bridge is for a service that the snapshot of its originating domain lists.
\<close>

definition reflects ::
  "('h12, 'h21, 's12, 's21) ros1_bridge
     \<Rightarrow> (string, string) rbt \<Rightarrow> (string, string) rbt
     \<Rightarrow> (string, string) rbt \<Rightarrow> (string, string) rbt
     \<Rightarrow> (string, (string, string) rbt) rbt \<Rightarrow> (string, (string, string) rbt) rbt
     \<Rightarrow> ('h12, 'h21, 's12, 's21) registry \<Rightarrow> bool \<Rightarrow> bool \<Rightarrow> bool" where
  "reflects env ros1_publishers ros1_subscribers ros2_publishers ros2_subscribers
       ros1_services ros2_services s bridge_all_1to2_topics bridge_all_2to1_topics \<longleftrightarrow>
     (\<forall>p \<in> set (RBT.entries ros1_publishers).
        in_place_1to2 env ros2_subscribers bridge_all_1to2_topics s p) \<and>
     (\<forall>p \<in> set (RBT.entries ros2_publishers).
        in_place_2to1 env ros1_subscribers bridge_all_2to1_topics s p) \<and>
     (\<forall>name \<in> set (RBT.keys ros1_services).
        RBT.lookup (service_bridges_2_to_1 s) name \<noteq> None \<or>
        RBT.lookup (service_bridges_1_to_2 s) name \<noteq> None) \<and>
     (\<forall>name \<in> set (RBT.keys ros2_services).
        RBT.lookup (service_bridges_2_to_1 s) name \<noteq> None \<or>
        RBT.lookup (service_bridges_1_to_2 s) name \<noteq> None) \<and>
     (\<forall>name \<in> set (RBT.keys (service_bridges_2_to_1 s)). RBT.lookup ros1_services name \<noteq> None) \<and>
     (\<forall>name \<in> set (RBT.keys (service_bridges_1_to_2 s)). RBT.lookup ros2_services name \<noteq> None)"

text \<open>
  What a scan does not touch for a name in the already-ignored set: the name stays in the
  set, is not passed to \<^verbatim>\<open>check_inregex_list\<close> and is not logged as ignored again.
\<close>

definition untouched :: "string \<Rightarrow> poll_filter \<Rightarrow> poll_filter \<Rightarrow> bool" where
  "untouched name f f' \<longleftrightarrow>
     name \<in> already_ignored_topics f' \<and>
     filter ((=) name) (offered f') = filter ((=) name) (offered f) \<and>
     filter ((=) name) (ignored_log f') = filter ((=) name) (ignored_log f)"

subsection \<open>Scenarios\<close>

text \<open>
  A bridge factory that has no type mapping, builds every topic bridge and every service
  bridge it is asked for, and whose shutdown never throws. The handles carry no
  information.
\<close>

definition always_bridge :: "(unit, unit, unit, unit) ros1_bridge" where
  "always_bridge =
     \<lparr>get_1to2_mapping = (\<lambda>ros1_type. None), get_2to1_mapping = (\<lambda>ros2_type. None),
      create_bridge_from_1_to_2 = (\<lambda>ros1_type ros1_topic q1 ros2_type ros2_topic q2. Inr ()),
      create_bridge_from_2_to_1 = (\<lambda>ros2_type ros2_topic q2 ros1_type ros1_topic q1. Inr ()),
      get_service_factory = (\<lambda>domain package type_name.
        Some \<lparr>service_bridge_1_to_2 = (\<lambda>name. Inr ()), service_bridge_2_to_1 = (\<lambda>name. Inr ())\<rparr>),
      server_shutdown_throws = (\<lambda>bridge attempt. False)\<rparr>"

text \<open>A map with one entry.\<close>

definition one :: "string \<Rightarrow> 'v \<Rightarrow> (string, 'v) rbt" where
  "one k v = RBT.insert k v RBT.empty"

text \<open>
  The scenario of a topic \<^verbatim>\<open>/scan\<close> with a ROS 1 publisher of type \<^verbatim>\<open>LaserScan\<close>: the
  registry has a 1to2 bridge to the ROS 2 type \<^verbatim>\<open>LaserScanB\<close>, and the ROS 2 subscriber
  then reports \<^verbatim>\<open>LaserScanB2\<close>. \<open>idle\<close> are snapshots that list nothing.
\<close>

definition scan_bridge :: "string \<Rightarrow> string \<Rightarrow> unit BridgeHandlesAndMessageTypes" where
  "scan_bridge ros1_type ros2_type =
     \<lparr>bridge_handles = (), ros1_type_name = ros1_type, ros2_type_name = ros2_type\<rparr>"

definition scan_registry :: "(unit, unit, unit, unit) registry" where
  "scan_registry =
     \<lparr>bridges_1to2 = one ''/scan'' (scan_bridge ''LaserScan'' ''LaserScanB''),
      bridges_2to1 = RBT.empty, service_bridges_1_to_2 = RBT.empty,
      service_bridges_2_to_1 = RBT.empty, calls = []\<rparr>"

definition idle :: snapshots where
  "idle = \<lparr>ros1_pubs = RBT.empty, ros1_subs = RBT.empty, ros2_pubs = RBT.empty,
           ros2_subs = RBT.empty, ros1_srvs = RBT.empty, ros2_srvs = RBT.empty\<rparr>"

definition scan_replaced :: "(unit, unit, unit, unit) registry" where
  "scan_replaced =
     scan_registry
       \<lparr>bridges_1to2 := RBT.insert ''/scan'' (scan_bridge ''LaserScan'' ''LaserScanB2'')
                          (RBT.delete ''/scan'' (bridges_1to2 scan_registry)),
        calls := [Erase_bridges_1to2 ''/scan'',
                  Create_bridge_from_1_to_2 ''/scan'' ''LaserScan'' ''LaserScanB2'']\<rparr>"

text \<open>
  Bridges whose recorded ROS 1 type is the empty string, one in each direction, and the
  registry after a pass over snapshots that report the ROS 1 types.
\<close>

definition unknown_registry :: "(unit, unit, unit, unit) registry" where
  "unknown_registry =
     \<lparr>bridges_1to2 = one ''/scan'' (scan_bridge '''' ''LaserScanB''),
      bridges_2to1 = one ''/cmd'' (scan_bridge '''' ''TwistB''),
      service_bridges_1_to_2 = RBT.empty, service_bridges_2_to_1 = RBT.empty, calls = []\<rparr>"

definition unknown_replaced :: "(unit, unit, unit, unit) registry" where
  "unknown_replaced =
     unknown_registry
       \<lparr>bridges_1to2 := RBT.insert ''/scan'' (scan_bridge ''LaserScan'' ''LaserScanB'')
                          (RBT.delete ''/scan'' (bridges_1to2 unknown_registry)),
        calls := [Erase_bridges_1to2 ''/scan'',
                  Create_bridge_from_1_to_2 ''/scan'' ''LaserScan'' ''LaserScanB'']\<rparr>"

text \<open>
  A service \<^verbatim>\<open>/add\<close> of type \<^verbatim>\<open>srvs/Add\<close> that both domains list at first and then
  only ROS 2, with the registries after each of three passes.
\<close>

definition add_service :: "(string, (string, string) rbt) rbt" where
  "add_service = one ''/add'' (RBT.insert ''package'' ''srvs'' (one ''name'' ''Add''))"

definition both_offer :: snapshots where
  "both_offer = idle\<lparr>ros1_srvs := add_service, ros2_srvs := add_service\<rparr>"

definition ros2_offers :: snapshots where
  "ros2_offers = idle\<lparr>ros2_srvs := add_service\<rparr>"

definition add_2_to_1 :: "(unit, unit, unit, unit) registry" where
  "add_2_to_1 =
     \<lparr>bridges_1to2 = RBT.empty, bridges_2to1 = RBT.empty,
      service_bridges_1_to_2 = RBT.empty, service_bridges_2_to_1 = one ''/add'' (),
      calls = [Get_service_factory ''ros1'' ''srvs'' ''Add'', Service_bridge_2_to_1 ''/add'']\<rparr>"

definition add_removed :: "(unit, unit, unit, unit) registry" where
  "add_removed =
     \<lparr>bridges_1to2 = RBT.empty, bridges_2to1 = RBT.empty,
      service_bridges_1_to_2 = RBT.empty, service_bridges_2_to_1 = RBT.empty,
      calls = [Get_service_factory ''ros1'' ''srvs'' ''Add'', Service_bridge_2_to_1 ''/add'',
               Erase_service_bridges_2_to_1 ''/add'']\<rparr>"

definition add_1_to_2 :: "(unit, unit, unit, unit) registry" where
  "add_1_to_2 =
     \<lparr>bridges_1to2 = RBT.empty, bridges_2to1 = RBT.empty,
      service_bridges_1_to_2 = one ''/add'' (), service_bridges_2_to_1 = RBT.empty,
      calls = [Get_service_factory ''ros1'' ''srvs'' ''Add'', Service_bridge_2_to_1 ''/add'',
               Erase_service_bridges_2_to_1 ''/add'',
               Get_service_factory ''ros2'' ''srvs'' ''Add'', Service_bridge_1_to_2 ''/add'']\<rparr>"

text \<open>
  Two obsolete 1to2 service bridges, with a factory that has no service capability. With
  \<open>flaky_shutdown\<close> the shutdown of the bridge of \<^verbatim>\<open>/a\<close> throws at its first two attempts;
  with \<open>stuck_shutdown\<close> it throws at every attempt.
\<close>

definition flaky_shutdown :: "(unit, unit, string, unit) ros1_bridge" where
  "flaky_shutdown =
     \<lparr>get_1to2_mapping = (\<lambda>ros1_type. None), get_2to1_mapping = (\<lambda>ros2_type. None),
      create_bridge_from_1_to_2 = (\<lambda>ros1_type ros1_topic q1 ros2_type ros2_topic q2. Inr ()),
      create_bridge_from_2_to_1 = (\<lambda>ros2_type ros2_topic q2 ros1_type ros1_topic q1. Inr ()),
      get_service_factory = (\<lambda>domain package type_name. None),
      server_shutdown_throws = (\<lambda>bridge attempt. bridge = ''server_a'' \<and> attempt < 2)\<rparr>"

definition stuck_shutdown :: "(unit, unit, string, unit) ros1_bridge" where
  "stuck_shutdown = flaky_shutdown\<lparr>server_shutdown_throws := (\<lambda>bridge attempt. bridge = ''server_a'')\<rparr>"

definition two_services :: "(unit, unit, string, unit) registry" where
  "two_services =
     \<lparr>bridges_1to2 = RBT.empty, bridges_2to1 = RBT.empty,
      service_bridges_1_to_2 = RBT.insert ''/b'' ''server_b'' (one ''/a'' ''server_a''),
      service_bridges_2_to_1 = one ''/c'' (), calls = []\<rparr>"

definition two_services_removed :: "(unit, unit, string, unit) registry" where
  "two_services_removed =
     \<lparr>bridges_1to2 = RBT.empty, bridges_2to1 = RBT.empty,
      service_bridges_1_to_2 = RBT.empty, service_bridges_2_to_1 = RBT.empty,
      calls = [Erase_service_bridges_2_to_1 ''/c'',
               Server_shutdown ''/a'', Server_shutdown ''/a'', Server_shutdown ''/a'',
               Erase_service_bridges_1_to_2 ''/a'',
               Server_shutdown ''/b'', Erase_service_bridges_1_to_2 ''/b'']\<rparr>"

text \<open>
  A probe in which the service is found, the transport connects and both reads deliver
  what was asked for; \<open>parsed\<close> is what \<^verbatim>\<open>ros::Header::parse\<close> makes of the response.
\<close>

definition answering :: "string + (string, string) rbt \<Rightarrow> type_probe" where
  "answering parsed =
     \<lparr>lookupService = (\<lambda>name. Some (''localhost'', 11311)),
      transport_connect = (\<lambda>host port. True),
      read_length = (4, 8),
      read_response = (\<lambda>len. (8, replicate 8 0)),
      header_parse = (\<lambda>response len. parsed)\<rparr>"

text \<open>
  The sets of a poll lambda before its first poll, and after a poll in which \<^verbatim>\<open>/x\<close>
  matched no pattern.
\<close>

definition fresh_filter :: poll_filter where
  "fresh_filter = \<lparr>already_ignored_topics = {}, valid_topics = {}, offered = [], ignored_log = []\<rparr>"

definition x_ignored :: poll_filter where
  "x_ignored = \<lparr>already_ignored_topics = {''/x''}, valid_topics = {}, offered = [''/x''],
                 ignored_log = [''/x'']\<rparr>"

section \<open>Properties\<close>

subsection \<open>Whitelist matcher\<close>

lemma match_loop_result:
  "fst (match_loop regex_match regex_list name known_set evaluated)
     \<longleftrightarrow> (\<exists>p \<in> set regex_list. regex_match name p)"
  by (induction regex_list arbitrary: evaluated) auto

lemma match_loop_cache:
  "fst (snd (match_loop regex_match regex_list name known_set evaluated)) =
     (if \<exists>p \<in> set regex_list. regex_match name p then insert name known_set else known_set)"
  by (induction regex_list arbitrary: evaluated) auto

lemma check_inregex_list_grows:
  "known_set \<subseteq> fst (snd (check_inregex_list regex_match regex_list name known_set))"
  by (auto simp: check_inregex_list_def match_loop_cache)

lemma check_sequence_grows:
  "known_set \<subseteq> check_sequence regex_match later known_set"
proof (induction later arbitrary: known_set)
  case Nil
  show ?case by simp
next
  case (Cons c later)
  obtain regex_list name where c: "c = (regex_list, name)" by (cases c)
  have "known_set \<subseteq> fst (snd (check_inregex_list regex_match regex_list name known_set))"
    by (rule check_inregex_list_grows)
  also have "\<dots> \<subseteq> check_sequence regex_match (c # later) known_set"
    unfolding c check_sequence.simps by (rule Cons.IH)
  finally show ?case .
qed

text \<open>
  C7. For a name that is not in the cache, \<open>check_inregex_list\<close> returns true exactly when
  some pattern of the list matches the name. After a true result the name is in the cache,
  and after any further calls (any names, any pattern lists) a call with the same name
  returns true, leaves the cache as it is and evaluates no pattern. After a false result
  the cache is the one passed in, so the name is not in it.
\<close>

theorem check_inregex_list_contract:
  assumes "name \<notin> known_set"
    and "check_inregex_list regex_match regex_list name known_set = (result, known_set', evaluated)"
  shows "(result \<longleftrightarrow> (\<exists>p \<in> set regex_list. regex_match name p)) \<and>
         (result \<longrightarrow> name \<in> known_set' \<and>
           check_inregex_list regex_match regex_list' name (check_sequence regex_match later known_set')
             = (True, check_sequence regex_match later known_set', [])) \<and>
         (\<not> result \<longrightarrow> known_set' = known_set \<and> name \<notin> known_set')"
proof -
  from assms have loop: "match_loop regex_match regex_list name known_set [] = (result, known_set', evaluated)"
    by (simp add: check_inregex_list_def)
  from loop have r: "result = fst (match_loop regex_match regex_list name known_set [])"
    and k: "known_set' = fst (snd (match_loop regex_match regex_list name known_set []))"
    by simp_all
  have res: "result \<longleftrightarrow> (\<exists>p \<in> set regex_list. regex_match name p)"
    unfolding r by (rule match_loop_result)
  have hit: "name \<in> known_set' \<and>
           check_inregex_list regex_match regex_list' name (check_sequence regex_match later known_set')
             = (True, check_sequence regex_match later known_set', [])" if result
  proof -
    from that res k have "name \<in> known_set'" by (simp add: match_loop_cache)
    moreover have "known_set' \<subseteq> check_sequence regex_match later known_set'"
      by (rule check_sequence_grows)
    ultimately have "name \<in> check_sequence regex_match later known_set'" by blast
    with \<open>name \<in> known_set'\<close> show ?thesis
      by (simp add: check_inregex_list_def)
  qed
  have miss: "known_set' = known_set \<and> name \<notin> known_set'" if "\<not> result"
    using that res k assms(1) by (simp add: match_loop_cache)
  from res hit miss show ?thesis by blast
qed

theorem check_inregex_list_contract_witness:
  "''/scan'' \<notin> ({} :: string set) \<and>
   check_inregex_list (\<lambda>name rgxp. name = rgxp) [''/tf'', ''/scan''] ''/scan'' {}
     = (True, {''/scan''}, [''/tf'', ''/scan'']) \<and>
   check_inregex_list (\<lambda>name rgxp. name = rgxp) [] ''/scan''
       (check_sequence (\<lambda>name rgxp. name = rgxp) [([''/tf''], ''/odom'')] {''/scan''})
     = (True, check_sequence (\<lambda>name rgxp. name = rgxp) [([''/tf''], ''/odom'')] {''/scan''}, [])"
proof -
  have h: "''/scan'' \<notin> ({} :: string set)" by simp
  have c: "check_inregex_list (\<lambda>name rgxp. name = rgxp) [''/tf'', ''/scan''] ''/scan'' {}
     = (True, {''/scan''}, [''/tf'', ''/scan''])"
    by (simp add: check_inregex_list_def)
  from check_inregex_list_contract [OF h c, of "[]" "[([''/tf''], ''/odom'')]"] h c
  show ?thesis by simp
qed

subsection \<open>Reconciler: what each part of a pass changes\<close>

lemma extends_calls_refl: "extends_calls s s P"
  by (simp add: extends_calls_def)

lemma extends_calls_trans:
  "extends_calls s s1 P \<Longrightarrow> extends_calls s1 s2 P \<Longrightarrow> extends_calls s s2 P"
  by (fastforce simp: extends_calls_def)

lemma extends_calls_mono:
  "extends_calls s s' P \<Longrightarrow> (\<And>c. P c \<Longrightarrow> Q c) \<Longrightarrow> extends_calls s s' Q"
  by (auto simp: extends_calls_def)

lemma extends_calls_append:
  "calls s' = calls s @ new \<Longrightarrow> \<forall>c \<in> set new. P c \<Longrightarrow> extends_calls s s' P"
  by (auto simp: extends_calls_def)

lemma calls_of_pass_append:
  "calls s' = calls s @ new \<Longrightarrow> calls_of_pass s s' = new"
  by (simp add: calls_of_pass_def)

lemma extends_calls_filter_none:
  "extends_calls s s' P \<Longrightarrow> (\<And>c. P c \<Longrightarrow> \<not> Q c) \<Longrightarrow> filter Q (calls_of_pass s s') = []"
  by (auto simp: extends_calls_def calls_of_pass_def)

lemma calls_of_pass_trans:
  "extends_calls s s1 P \<Longrightarrow> extends_calls s1 s2 Q \<Longrightarrow>
     calls_of_pass s s2 = calls_of_pass s s1 @ calls_of_pass s1 s2"
  by (auto simp: extends_calls_def calls_of_pass_def)

lemma create_1to2_frame:
  "bridges_2to1 (create_1to2 env n t1 t2 s) = bridges_2to1 s"
  "service_bridges_1_to_2 (create_1to2 env n t1 t2 s) = service_bridges_1_to_2 s"
  "service_bridges_2_to_1 (create_1to2 env n t1 t2 s) = service_bridges_2_to_1 s"
  "calls (create_1to2 env n t1 t2 s) = calls s @ [Create_bridge_from_1_to_2 n t1 t2]"
  "m \<noteq> n \<Longrightarrow> RBT.lookup (bridges_1to2 (create_1to2 env n t1 t2 s)) m = RBT.lookup (bridges_1to2 s) m"
  by (auto simp: create_1to2_def split: sum.splits)

lemma bridge_1to2_step_frame:
  "bridges_2to1 (bridge_1to2_step env subs all p s) = bridges_2to1 s"
  "service_bridges_1_to_2 (bridge_1to2_step env subs all p s) = service_bridges_1_to_2 s"
  "service_bridges_2_to_1 (bridge_1to2_step env subs all p s) = service_bridges_2_to_1 s"
  by (cases p; simp add: create_1to2_frame split: option.splits)+

lemma bridge_1to2_step_other:
  "m \<noteq> fst p \<Longrightarrow> RBT.lookup (bridges_1to2 (bridge_1to2_step env subs all p s)) m = RBT.lookup (bridges_1to2 s) m"
  by (cases p) (simp add: create_1to2_frame split: option.splits)

lemma bridge_1to2_step_calls:
  "extends_calls s (bridge_1to2_step env subs all p s) (topic_call_1to2 (fst p))"
  by (cases p) (auto simp: extends_calls_def create_1to2_frame split: option.splits)

lemma fold_1to2_frame:
  "bridges_2to1 (fold (bridge_1to2_step env subs all) xs s) = bridges_2to1 s"
  "service_bridges_1_to_2 (fold (bridge_1to2_step env subs all) xs s) = service_bridges_1_to_2 s"
  "service_bridges_2_to_1 (fold (bridge_1to2_step env subs all) xs s) = service_bridges_2_to_1 s"
  by (induction xs arbitrary: s; simp add: bridge_1to2_step_frame)+

lemma fold_1to2_other:
  "m \<notin> fst ` set xs \<Longrightarrow>
     RBT.lookup (bridges_1to2 (fold (bridge_1to2_step env subs all) xs s)) m = RBT.lookup (bridges_1to2 s) m"
  by (induction xs arbitrary: s) (auto simp: bridge_1to2_step_other)

lemma fold_1to2_calls:
  "extends_calls s (fold (bridge_1to2_step env subs all) xs s) (\<lambda>c. \<exists>m \<in> fst ` set xs. topic_call_1to2 m c)"
proof (induction xs arbitrary: s)
  case Nil
  show ?case by (simp add: extends_calls_refl)
next
  case (Cons p xs)
  have "extends_calls s (bridge_1to2_step env subs all p s) (\<lambda>c. \<exists>m \<in> fst ` set (p # xs). topic_call_1to2 m c)"
    by (rule extends_calls_mono[OF bridge_1to2_step_calls]) simp
  moreover have "extends_calls (bridge_1to2_step env subs all p s)
      (fold (bridge_1to2_step env subs all) xs (bridge_1to2_step env subs all p s))
      (\<lambda>c. \<exists>m \<in> fst ` set (p # xs). topic_call_1to2 m c)"
    by (rule extends_calls_mono[OF Cons.IH]) auto
  ultimately show ?case by (simp add: extends_calls_trans[where ?s1.0 = "bridge_1to2_step env subs all p s"])
qed

lemma topic_call_1to2_same: "topic_call_1to2 m c \<Longrightarrow> topic_call_1to2 n c \<Longrightarrow> m = n"
  by (cases c) auto

lemma topic_call_2to1_same: "topic_call_2to1 m c \<Longrightarrow> topic_call_2to1 n c \<Longrightarrow> m = n"
  by (cases c) auto

lemma topic_call_1to2_not_2to1: "topic_call_1to2 m c \<Longrightarrow> \<not> topic_call_2to1 n c"
  by (cases c) auto

lemma topic_call_2to1_not_1to2: "topic_call_2to1 m c \<Longrightarrow> \<not> topic_call_1to2 n c"
  by (cases c) auto

lemma fold_1to2_calls_other:
  assumes "n \<notin> fst ` set xs"
  shows "extends_calls s (fold (bridge_1to2_step env subs all) xs s)
           (\<lambda>c. \<not> topic_call_1to2 n c \<and> \<not> topic_call_2to1 n c)"
proof (rule extends_calls_mono[OF fold_1to2_calls])
  fix c assume "\<exists>m \<in> fst ` set xs. topic_call_1to2 m c"
  then obtain m where m: "m \<in> fst ` set xs" "topic_call_1to2 m c" by blast
  with assms have "m \<noteq> n" by blast
  with m(2) show "\<not> topic_call_1to2 n c \<and> \<not> topic_call_2to1 n c"
    using topic_call_1to2_same topic_call_1to2_not_2to1 by blast
qed

lemma distinct_keys_split:
  assumes "distinct (map fst xs)" and "(n, t) \<in> set xs"
  shows "\<exists>ys zs. xs = ys @ (n, t) # zs \<and> n \<notin> fst ` set ys \<and> n \<notin> fst ` set zs"
proof -
  from assms(2) obtain ys zs where xs: "xs = ys @ (n, t) # zs"
    by (meson split_list)
  with assms(1) have "n \<notin> fst ` set ys \<and> n \<notin> fst ` set zs" by auto
  with xs show ?thesis by blast
qed

text \<open>The pass over the publishers, seen from one topic name.\<close>

lemma fold_1to2_split:
  assumes "distinct (map fst xs)" and "(n, t1) \<in> set xs"
  shows "\<exists>sA. RBT.lookup (bridges_1to2 sA) n = RBT.lookup (bridges_1to2 s) n \<and>
           extends_calls s sA (\<lambda>c. \<not> topic_call_1to2 n c \<and> \<not> topic_call_2to1 n c) \<and>
           extends_calls (bridge_1to2_step env subs all (n, t1) sA)
             (fold (bridge_1to2_step env subs all) xs s)
             (\<lambda>c. \<not> topic_call_1to2 n c \<and> \<not> topic_call_2to1 n c) \<and>
           RBT.lookup (bridges_1to2 (fold (bridge_1to2_step env subs all) xs s)) n =
             RBT.lookup (bridges_1to2 (bridge_1to2_step env subs all (n, t1) sA)) n"
proof -
  from distinct_keys_split[OF assms] obtain ys zs
    where xs: "xs = ys @ (n, t1) # zs" and ys: "n \<notin> fst ` set ys" and zs: "n \<notin> fst ` set zs"
    by blast
  let ?sA = "fold (bridge_1to2_step env subs all) ys s"
  let ?sB = "bridge_1to2_step env subs all (n, t1) ?sA"
  have f: "fold (bridge_1to2_step env subs all) xs s = fold (bridge_1to2_step env subs all) zs ?sB"
    by (simp add: xs)
  have "RBT.lookup (bridges_1to2 ?sA) n = RBT.lookup (bridges_1to2 s) n"
    by (rule fold_1to2_other[OF ys])
  moreover have "extends_calls s ?sA (\<lambda>c. \<not> topic_call_1to2 n c \<and> \<not> topic_call_2to1 n c)"
    by (rule fold_1to2_calls_other[OF ys])
  moreover have "extends_calls ?sB (fold (bridge_1to2_step env subs all) xs s)
       (\<lambda>c. \<not> topic_call_1to2 n c \<and> \<not> topic_call_2to1 n c)"
    unfolding f by (rule fold_1to2_calls_other[OF zs])
  moreover have "RBT.lookup (bridges_1to2 (fold (bridge_1to2_step env subs all) xs s)) n =
       RBT.lookup (bridges_1to2 ?sB) n"
    unfolding f by (rule fold_1to2_other[OF zs])
  ultimately show ?thesis by blast
qed

lemma create_2to1_frame:
  "bridges_1to2 (create_2to1 env n t2 t1 s) = bridges_1to2 s"
  "service_bridges_1_to_2 (create_2to1 env n t2 t1 s) = service_bridges_1_to_2 s"
  "service_bridges_2_to_1 (create_2to1 env n t2 t1 s) = service_bridges_2_to_1 s"
  "calls (create_2to1 env n t2 t1 s) = calls s @ [Create_bridge_from_2_to_1 n t2 t1]"
  "m \<noteq> n \<Longrightarrow> RBT.lookup (bridges_2to1 (create_2to1 env n t2 t1 s)) m = RBT.lookup (bridges_2to1 s) m"
  by (auto simp: create_2to1_def split: sum.splits)

lemma bridge_2to1_step_frame:
  "bridges_1to2 (bridge_2to1_step env subs all p s) = bridges_1to2 s"
  "service_bridges_1_to_2 (bridge_2to1_step env subs all p s) = service_bridges_1_to_2 s"
  "service_bridges_2_to_1 (bridge_2to1_step env subs all p s) = service_bridges_2_to_1 s"
  by (cases p; simp add: create_2to1_frame split: option.splits)+

lemma bridge_2to1_step_other:
  "m \<noteq> fst p \<Longrightarrow> RBT.lookup (bridges_2to1 (bridge_2to1_step env subs all p s)) m = RBT.lookup (bridges_2to1 s) m"
  by (cases p) (simp add: create_2to1_frame split: option.splits)

lemma bridge_2to1_step_calls:
  "extends_calls s (bridge_2to1_step env subs all p s) (topic_call_2to1 (fst p))"
  by (cases p) (auto simp: extends_calls_def create_2to1_frame split: option.splits)

lemma fold_2to1_frame:
  "bridges_1to2 (fold (bridge_2to1_step env subs all) xs s) = bridges_1to2 s"
  "service_bridges_1_to_2 (fold (bridge_2to1_step env subs all) xs s) = service_bridges_1_to_2 s"
  "service_bridges_2_to_1 (fold (bridge_2to1_step env subs all) xs s) = service_bridges_2_to_1 s"
  by (induction xs arbitrary: s; simp add: bridge_2to1_step_frame)+

lemma fold_2to1_other:
  "m \<notin> fst ` set xs \<Longrightarrow>
     RBT.lookup (bridges_2to1 (fold (bridge_2to1_step env subs all) xs s)) m = RBT.lookup (bridges_2to1 s) m"
  by (induction xs arbitrary: s) (auto simp: bridge_2to1_step_other)

lemma fold_2to1_calls:
  "extends_calls s (fold (bridge_2to1_step env subs all) xs s) (\<lambda>c. \<exists>m \<in> fst ` set xs. topic_call_2to1 m c)"
proof (induction xs arbitrary: s)
  case Nil
  show ?case by (simp add: extends_calls_refl)
next
  case (Cons p xs)
  have "extends_calls s (bridge_2to1_step env subs all p s) (\<lambda>c. \<exists>m \<in> fst ` set (p # xs). topic_call_2to1 m c)"
    by (rule extends_calls_mono[OF bridge_2to1_step_calls]) simp
  moreover have "extends_calls (bridge_2to1_step env subs all p s)
      (fold (bridge_2to1_step env subs all) xs (bridge_2to1_step env subs all p s))
      (\<lambda>c. \<exists>m \<in> fst ` set (p # xs). topic_call_2to1 m c)"
    by (rule extends_calls_mono[OF Cons.IH]) auto
  ultimately show ?case by (simp add: extends_calls_trans[where ?s1.0 = "bridge_2to1_step env subs all p s"])
qed

lemma fold_2to1_calls_other:
  assumes "n \<notin> fst ` set xs"
  shows "extends_calls s (fold (bridge_2to1_step env subs all) xs s)
           (\<lambda>c. \<not> topic_call_1to2 n c \<and> \<not> topic_call_2to1 n c)"
proof (rule extends_calls_mono[OF fold_2to1_calls])
  fix c assume "\<exists>m \<in> fst ` set xs. topic_call_2to1 m c"
  then obtain m where m: "m \<in> fst ` set xs" "topic_call_2to1 m c" by blast
  with assms have "m \<noteq> n" by blast
  with m(2) show "\<not> topic_call_1to2 n c \<and> \<not> topic_call_2to1 n c"
    using topic_call_2to1_same topic_call_2to1_not_1to2 by blast
qed

lemma fold_2to1_split:
  assumes "distinct (map fst xs)" and "(n, t2) \<in> set xs"
  shows "\<exists>sA. RBT.lookup (bridges_2to1 sA) n = RBT.lookup (bridges_2to1 s) n \<and>
           extends_calls s sA (\<lambda>c. \<not> topic_call_1to2 n c \<and> \<not> topic_call_2to1 n c) \<and>
           extends_calls (bridge_2to1_step env subs all (n, t2) sA)
             (fold (bridge_2to1_step env subs all) xs s)
             (\<lambda>c. \<not> topic_call_1to2 n c \<and> \<not> topic_call_2to1 n c) \<and>
           RBT.lookup (bridges_2to1 (fold (bridge_2to1_step env subs all) xs s)) n =
             RBT.lookup (bridges_2to1 (bridge_2to1_step env subs all (n, t2) sA)) n"
proof -
  from distinct_keys_split[OF assms] obtain ys zs
    where xs: "xs = ys @ (n, t2) # zs" and ys: "n \<notin> fst ` set ys" and zs: "n \<notin> fst ` set zs"
    by blast
  let ?sA = "fold (bridge_2to1_step env subs all) ys s"
  let ?sB = "bridge_2to1_step env subs all (n, t2) ?sA"
  have f: "fold (bridge_2to1_step env subs all) xs s = fold (bridge_2to1_step env subs all) zs ?sB"
    by (simp add: xs)
  have "RBT.lookup (bridges_2to1 ?sA) n = RBT.lookup (bridges_2to1 s) n"
    by (rule fold_2to1_other[OF ys])
  moreover have "extends_calls s ?sA (\<lambda>c. \<not> topic_call_1to2 n c \<and> \<not> topic_call_2to1 n c)"
    by (rule fold_2to1_calls_other[OF ys])
  moreover have "extends_calls ?sB (fold (bridge_2to1_step env subs all) xs s)
       (\<lambda>c. \<not> topic_call_1to2 n c \<and> \<not> topic_call_2to1 n c)"
    unfolding f by (rule fold_2to1_calls_other[OF zs])
  moreover have "RBT.lookup (bridges_2to1 (fold (bridge_2to1_step env subs all) xs s)) n =
       RBT.lookup (bridges_2to1 ?sB) n"
    unfolding f by (rule fold_2to1_other[OF zs])
  ultimately show ?thesis by blast
qed

lemma service_call_not_topic:
  "service_call c \<Longrightarrow> \<not> topic_call_1to2 n c \<and> \<not> topic_call_2to1 n c"
  by (cases c) auto

lemma ros1_service_step_frame:
  assumes "ros1_service_step env p s = (e, s')"
  shows "bridges_1to2 s' = bridges_1to2 s" "bridges_2to1 s' = bridges_2to1 s"
    "service_bridges_1_to_2 s' = service_bridges_1_to_2 s"
    "extends_calls s s' service_call"
    "RBT.lookup (service_bridges_2_to_1 s) m = Some v \<Longrightarrow> RBT.lookup (service_bridges_2_to_1 s') m = Some v"
    "RBT.lookup (service_bridges_2_to_1 s') m \<noteq> None \<Longrightarrow>
       RBT.lookup (service_bridges_2_to_1 s) m \<noteq> None \<or>
       (m = fst p \<and> RBT.lookup (service_bridges_1_to_2 s) m = None)"
  using assms
  by (cases p; auto simp: at_key_def extends_calls_def split: if_splits option.splits sum.splits)+

lemma ros1_service_step_ok:
  assumes "RBT.lookup (snd p) ''package'' \<noteq> None" "RBT.lookup (snd p) ''name'' \<noteq> None"
  shows "fst (ros1_service_step env p s) = None"
  using assms by (cases p) (auto simp: at_key_def split: option.splits sum.splits)

lemma ros1_service_step_present:
  assumes "RBT.lookup (service_bridges_2_to_1 s) (fst p) \<noteq> None \<or>
           RBT.lookup (service_bridges_1_to_2 s) (fst p) \<noteq> None"
  shows "ros1_service_step env p s = (None, s)"
  using assms by (cases p) auto

lemma ros2_service_step_frame:
  assumes "ros2_service_step env p s = (e, s')"
  shows "bridges_1to2 s' = bridges_1to2 s" "bridges_2to1 s' = bridges_2to1 s"
    "service_bridges_2_to_1 s' = service_bridges_2_to_1 s"
    "extends_calls s s' service_call"
    "RBT.lookup (service_bridges_1_to_2 s) m = Some v \<Longrightarrow> RBT.lookup (service_bridges_1_to_2 s') m = Some v"
    "RBT.lookup (service_bridges_1_to_2 s') m \<noteq> None \<Longrightarrow>
       RBT.lookup (service_bridges_1_to_2 s) m \<noteq> None \<or>
       (m = fst p \<and> RBT.lookup (service_bridges_2_to_1 s) m = None)"
  using assms
  by (cases p; auto simp: at_key_def extends_calls_def split: if_splits option.splits sum.splits)+

lemma ros2_service_step_ok:
  assumes "RBT.lookup (snd p) ''package'' \<noteq> None" "RBT.lookup (snd p) ''name'' \<noteq> None"
  shows "fst (ros2_service_step env p s) = None"
  using assms by (cases p) (auto simp: at_key_def split: option.splits sum.splits)

lemma ros2_service_step_present:
  assumes "RBT.lookup (service_bridges_2_to_1 s) (fst p) \<noteq> None \<or>
           RBT.lookup (service_bridges_1_to_2 s) (fst p) \<noteq> None"
  shows "ros2_service_step env p s = (None, s)"
  using assms by (cases p) auto

lemma create_ros1_services_frame:
  assumes "create_ros1_services env xs s = (e, s')"
  shows "bridges_1to2 s' = bridges_1to2 s \<and> bridges_2to1 s' = bridges_2to1 s \<and>
    service_bridges_1_to_2 s' = service_bridges_1_to_2 s \<and>
    extends_calls s s' service_call"
  using assms
proof (induction xs arbitrary: s)
  case Nil
  then show ?case by (simp add: extends_calls_refl)
next
  case (Cons p xs)
  obtain e1 s1 where step: "ros1_service_step env p s = (e1, s1)" by (cases "ros1_service_step env p s")
  note fr = ros1_service_step_frame(1-4)[OF step]
  show ?case
  proof (cases e1)
    case (Some err)
    with Cons.prems step have eq: "s' = s1" by simp
    show ?thesis unfolding eq by (intro conjI fr)
  next
    case None
    with Cons.prems step have "create_ros1_services env xs s1 = (e, s')" by simp
    from Cons.IH[OF this] have ih:
      "bridges_1to2 s' = bridges_1to2 s1" "bridges_2to1 s' = bridges_2to1 s1"
      "service_bridges_1_to_2 s' = service_bridges_1_to_2 s1"
      "extends_calls s1 s' service_call"
      by simp_all
    have "extends_calls s s' service_call"
      using fr(4) ih(4) by (rule extends_calls_trans)
    then show ?thesis by (simp add: ih(1-3) fr(1-3))
  qed
qed

lemma create_ros1_services_keeps:
  assumes "create_ros1_services env xs s = (e, s')"
    and "RBT.lookup (service_bridges_2_to_1 s) m = Some v"
  shows "RBT.lookup (service_bridges_2_to_1 s') m = Some v"
  using assms
proof (induction xs arbitrary: s)
  case Nil
  then show ?case by simp
next
  case (Cons p xs)
  obtain e1 s1 where step: "ros1_service_step env p s = (e1, s1)" by (cases "ros1_service_step env p s")
  have k: "RBT.lookup (service_bridges_2_to_1 s1) m = Some v"
    by (rule ros1_service_step_frame(5)[OF step Cons.prems(2)])
  show ?case
  proof (cases e1)
    case (Some err)
    with Cons.prems(1) step have "s' = s1" by simp
    with k show ?thesis by simp
  next
    case None
    with Cons.prems(1) step have "create_ros1_services env xs s1 = (e, s')" by simp
    from Cons.IH[OF this k] show ?thesis .
  qed
qed

lemma create_ros1_services_new:
  assumes "create_ros1_services env xs s = (e, s')"
    and "RBT.lookup (service_bridges_2_to_1 s') m \<noteq> None"
  shows "RBT.lookup (service_bridges_2_to_1 s) m \<noteq> None \<or> RBT.lookup (service_bridges_1_to_2 s) m = None"
  using assms
proof (induction xs arbitrary: s)
  case Nil
  then show ?case by simp
next
  case (Cons p xs)
  obtain e1 s1 where step: "ros1_service_step env p s = (e1, s1)" by (cases "ros1_service_step env p s")
  note fr3 = ros1_service_step_frame(3)[OF step]
  note fr6 = ros1_service_step_frame(6)[OF step]
  have s1: "RBT.lookup (service_bridges_2_to_1 s1) m \<noteq> None \<or> RBT.lookup (service_bridges_1_to_2 s1) m = None"
  proof (cases e1)
    case (Some err)
    with Cons.prems(1) step have "s' = s1" by simp
    with Cons.prems(2) show ?thesis by simp
  next
    case None
    with Cons.prems(1) step have "create_ros1_services env xs s1 = (e, s')" by simp
    from Cons.IH[OF this Cons.prems(2)] show ?thesis .
  qed
  then show ?case
  proof
    assume "RBT.lookup (service_bridges_2_to_1 s1) m \<noteq> None"
    from fr6[OF this] show ?thesis by (elim disjE conjE) simp_all
  next
    assume "RBT.lookup (service_bridges_1_to_2 s1) m = None"
    then show ?thesis unfolding fr3 by (rule disjI2)
  qed
qed

lemma create_ros2_services_frame:
  assumes "create_ros2_services env xs s = (e, s')"
  shows "bridges_1to2 s' = bridges_1to2 s \<and> bridges_2to1 s' = bridges_2to1 s \<and>
    service_bridges_2_to_1 s' = service_bridges_2_to_1 s \<and>
    extends_calls s s' service_call"
  using assms
proof (induction xs arbitrary: s)
  case Nil
  then show ?case by (simp add: extends_calls_refl)
next
  case (Cons p xs)
  obtain e1 s1 where step: "ros2_service_step env p s = (e1, s1)" by (cases "ros2_service_step env p s")
  note fr = ros2_service_step_frame(1-4)[OF step]
  show ?case
  proof (cases e1)
    case (Some err)
    with Cons.prems step have eq: "s' = s1" by simp
    show ?thesis unfolding eq by (intro conjI fr)
  next
    case None
    with Cons.prems step have "create_ros2_services env xs s1 = (e, s')" by simp
    from Cons.IH[OF this] have ih:
      "bridges_1to2 s' = bridges_1to2 s1" "bridges_2to1 s' = bridges_2to1 s1"
      "service_bridges_2_to_1 s' = service_bridges_2_to_1 s1"
      "extends_calls s1 s' service_call"
      by simp_all
    have "extends_calls s s' service_call"
      using fr(4) ih(4) by (rule extends_calls_trans)
    then show ?thesis by (simp add: ih(1-3) fr(1-3))
  qed
qed

lemma create_ros2_services_keeps:
  assumes "create_ros2_services env xs s = (e, s')"
    and "RBT.lookup (service_bridges_1_to_2 s) m = Some v"
  shows "RBT.lookup (service_bridges_1_to_2 s') m = Some v"
  using assms
proof (induction xs arbitrary: s)
  case Nil
  then show ?case by simp
next
  case (Cons p xs)
  obtain e1 s1 where step: "ros2_service_step env p s = (e1, s1)" by (cases "ros2_service_step env p s")
  have k: "RBT.lookup (service_bridges_1_to_2 s1) m = Some v"
    by (rule ros2_service_step_frame(5)[OF step Cons.prems(2)])
  show ?case
  proof (cases e1)
    case (Some err)
    with Cons.prems(1) step have "s' = s1" by simp
    with k show ?thesis by simp
  next
    case None
    with Cons.prems(1) step have "create_ros2_services env xs s1 = (e, s')" by simp
    from Cons.IH[OF this k] show ?thesis .
  qed
qed

lemma create_ros2_services_new:
  assumes "create_ros2_services env xs s = (e, s')"
    and "RBT.lookup (service_bridges_1_to_2 s') m \<noteq> None"
  shows "RBT.lookup (service_bridges_1_to_2 s) m \<noteq> None \<or> RBT.lookup (service_bridges_2_to_1 s) m = None"
  using assms
proof (induction xs arbitrary: s)
  case Nil
  then show ?case by simp
next
  case (Cons p xs)
  obtain e1 s1 where step: "ros2_service_step env p s = (e1, s1)" by (cases "ros2_service_step env p s")
  note fr3 = ros2_service_step_frame(3)[OF step]
  note fr6 = ros2_service_step_frame(6)[OF step]
  have s1: "RBT.lookup (service_bridges_1_to_2 s1) m \<noteq> None \<or> RBT.lookup (service_bridges_2_to_1 s1) m = None"
  proof (cases e1)
    case (Some err)
    with Cons.prems(1) step have "s' = s1" by simp
    with Cons.prems(2) show ?thesis by simp
  next
    case None
    with Cons.prems(1) step have "create_ros2_services env xs s1 = (e, s')" by simp
    from Cons.IH[OF this Cons.prems(2)] show ?thesis .
  qed
  then show ?case
  proof
    assume "RBT.lookup (service_bridges_1_to_2 s1) m \<noteq> None"
    from fr6[OF this] show ?thesis by (elim disjE conjE) simp_all
  next
    assume "RBT.lookup (service_bridges_2_to_1 s1) m = None"
    then show ?thesis unfolding fr3 by (rule disjI2)
  qed
qed

lemma create_ros1_services_ok:
  assumes "\<forall>p \<in> set xs. RBT.lookup (snd p) ''package'' \<noteq> None \<and> RBT.lookup (snd p) ''name'' \<noteq> None"
  shows "fst (create_ros1_services env xs s) = None"
  using assms
proof (induction xs arbitrary: s)
  case Nil
  show ?case by simp
next
  case (Cons p xs)
  then have "fst (ros1_service_step env p s) = None" by (simp add: ros1_service_step_ok)
  then obtain s1 where "ros1_service_step env p s = (None, s1)"
    by (cases "ros1_service_step env p s") auto
  with Cons show ?case by simp
qed

lemma create_ros2_services_ok:
  assumes "\<forall>p \<in> set xs. RBT.lookup (snd p) ''package'' \<noteq> None \<and> RBT.lookup (snd p) ''name'' \<noteq> None"
  shows "fst (create_ros2_services env xs s) = None"
  using assms
proof (induction xs arbitrary: s)
  case Nil
  show ?case by simp
next
  case (Cons p xs)
  then have "fst (ros2_service_step env p s) = None" by (simp add: ros2_service_step_ok)
  then obtain s1 where "ros2_service_step env p s = (None, s1)"
    by (cases "ros2_service_step env p s") auto
  with Cons show ?case by simp
qed

lemma create_ros1_services_present:
  assumes "\<forall>p \<in> set xs. RBT.lookup (service_bridges_2_to_1 s) (fst p) \<noteq> None \<or>
           RBT.lookup (service_bridges_1_to_2 s) (fst p) \<noteq> None"
  shows "create_ros1_services env xs s = (None, s)"
  using assms by (induction xs) (simp_all add: ros1_service_step_present)

lemma create_ros2_services_present:
  assumes "\<forall>p \<in> set xs. RBT.lookup (service_bridges_2_to_1 s) (fst p) \<noteq> None \<or>
           RBT.lookup (service_bridges_1_to_2 s) (fst p) \<noteq> None"
  shows "create_ros2_services env xs s = (None, s)"
  using assms by (induction xs) (simp_all add: ros2_service_step_present)

lemma remove_obsolete_ros1_services_frame:
  "bridges_1to2 (remove_obsolete_ros1_services ros1_services it s) = bridges_1to2 s \<and>
   bridges_2to1 (remove_obsolete_ros1_services ros1_services it s) = bridges_2to1 s \<and>
   service_bridges_1_to_2 (remove_obsolete_ros1_services ros1_services it s) = service_bridges_1_to_2 s \<and>
   extends_calls s (remove_obsolete_ros1_services ros1_services it s) service_call \<and>
   (\<forall>n. RBT.lookup (service_bridges_2_to_1 (remove_obsolete_ros1_services ros1_services it s)) n =
      (if n \<in> fst ` set it \<and> RBT.lookup ros1_services n = None then None
       else RBT.lookup (service_bridges_2_to_1 s) n))"
proof (induction it arbitrary: s)
  case Nil
  show ?case by (simp add: extends_calls_refl)
next
  case (Cons p it)
  obtain name bridge where p: "p = (name, bridge)" by (cases p)
  show ?case
  proof (cases "RBT.lookup ros1_services name = None")
    case False
    then have r: "remove_obsolete_ros1_services ros1_services (p # it) s =
        remove_obsolete_ros1_services ros1_services it s"
      by (cases "RBT.lookup ros1_services name") (simp_all add: p)
    have "\<forall>n. (n \<in> fst ` set (p # it) \<and> RBT.lookup ros1_services n = None) =
        (n \<in> fst ` set it \<and> RBT.lookup ros1_services n = None)"
      using False p by auto
    with Cons.IH[of s] show ?thesis unfolding r by simp
  next
    case True
    let ?s1 = "s\<lparr>service_bridges_2_to_1 := RBT.delete name (service_bridges_2_to_1 s),
                calls := calls s @ [Erase_service_bridges_2_to_1 name]\<rparr>"
    let ?r = "remove_obsolete_ros1_services ros1_services it ?s1"
    from True have r: "remove_obsolete_ros1_services ros1_services (p # it) s = ?r" by (simp add: p)
    have e: "extends_calls s ?s1 service_call" by (simp add: extends_calls_def)
    from Cons.IH[of ?s1] have ih: "bridges_1to2 ?r = bridges_1to2 s" "bridges_2to1 ?r = bridges_2to1 s"
      "service_bridges_1_to_2 ?r = service_bridges_1_to_2 s"
      "extends_calls ?s1 ?r service_call"
      "\<And>n. RBT.lookup (service_bridges_2_to_1 ?r) n =
        (if n \<in> fst ` set it \<and> RBT.lookup ros1_services n = None then None
         else RBT.lookup (service_bridges_2_to_1 ?s1) n)"
      by simp_all
    from e ih(4) have "extends_calls s ?r service_call" by (rule extends_calls_trans)
    moreover have "\<forall>n. RBT.lookup (service_bridges_2_to_1 ?r) n =
        (if n \<in> fst ` set (p # it) \<and> RBT.lookup ros1_services n = None then None
         else RBT.lookup (service_bridges_2_to_1 s) n)"
      unfolding ih(5) using True p by simp
    ultimately show ?thesis unfolding r using ih(1-3) by simp
  qed
qed

lemma remove_obsolete_ros1_services_none:
  assumes "\<forall>p \<in> set it. RBT.lookup ros1_services (fst p) \<noteq> None"
  shows "remove_obsolete_ros1_services ros1_services it s = s"
  using assms by (induction it) auto

lemma remove_obsolete_ros2_services_frame:
  assumes "remove_obsolete_ros2_services env ros2_services it attempt s = Some s'"
  shows "bridges_1to2 s' = bridges_1to2 s \<and> bridges_2to1 s' = bridges_2to1 s \<and>
         service_bridges_2_to_1 s' = service_bridges_2_to_1 s \<and>
         extends_calls s s' service_call \<and>
         (\<forall>n. RBT.lookup (service_bridges_1_to_2 s') n =
            (if n \<in> fst ` set it \<and> RBT.lookup ros2_services n = None then None
             else RBT.lookup (service_bridges_1_to_2 s) n))"
  using assms
proof (induction env ros2_services it attempt s s'
    rule: remove_obsolete_ros2_services.raw_induct[rotated 1, consumes 1])
  case (1 f env ros2_services it attempt s s')
  show ?case
  proof (cases it)
    case Nil
    with 1(2) show ?thesis by (simp add: extends_calls_refl)
  next
    case (Cons p rest)
    obtain name bridge where p: "p = (name, bridge)" by (cases p)
    show ?thesis
    proof (cases "RBT.lookup ros2_services name = None")
      case False
      with 1(2) Cons p have "f env ros2_services rest 0 s = Some s'" by auto
      from 1(1)[OF this] False Cons p show ?thesis by auto
    next
      case True
      show ?thesis
      proof (cases "server_shutdown_throws env bridge attempt")
        case t: True
        let ?s1 = "s\<lparr>calls := calls s @ [Server_shutdown name]\<rparr>"
        have e: "extends_calls s ?s1 service_call" by (simp add: extends_calls_def)
        from t 1(2) Cons p True have "f env ros2_services it (Suc attempt) ?s1 = Some s'" by simp
        from 1(1)[OF this] have ih: "bridges_1to2 s' = bridges_1to2 s" "bridges_2to1 s' = bridges_2to1 s"
          "service_bridges_2_to_1 s' = service_bridges_2_to_1 s"
          "extends_calls ?s1 s' service_call"
          "\<forall>n. RBT.lookup (service_bridges_1_to_2 s') n =
            (if n \<in> fst ` set it \<and> RBT.lookup ros2_services n = None then None
             else RBT.lookup (service_bridges_1_to_2 s) n)"
          by simp_all
        from e ih(4) have "extends_calls s s' service_call" by (rule extends_calls_trans)
        with ih(1-3,5) show ?thesis by blast
      next
        case f: False
        let ?s1 = "s\<lparr>service_bridges_1_to_2 := RBT.delete name (service_bridges_1_to_2 s),
                         calls := calls s @ [Server_shutdown name, Erase_service_bridges_1_to_2 name]\<rparr>"
        have e: "extends_calls s ?s1 service_call" by (simp add: extends_calls_def)
        from f 1(2) Cons p True have "f env ros2_services rest 0 ?s1 = Some s'" by simp
        from 1(1)[OF this] have ih: "bridges_1to2 s' = bridges_1to2 s" "bridges_2to1 s' = bridges_2to1 s"
          "service_bridges_2_to_1 s' = service_bridges_2_to_1 s"
          "extends_calls ?s1 s' service_call"
          "\<And>n. RBT.lookup (service_bridges_1_to_2 s') n =
            (if n \<in> fst ` set rest \<and> RBT.lookup ros2_services n = None then None
             else RBT.lookup (service_bridges_1_to_2 ?s1) n)"
          by simp_all
        from e ih(4) have "extends_calls s s' service_call" by (rule extends_calls_trans)
        moreover have "\<forall>n. RBT.lookup (service_bridges_1_to_2 s') n =
            (if n \<in> fst ` set it \<and> RBT.lookup ros2_services n = None then None
             else RBT.lookup (service_bridges_1_to_2 s) n)"
          unfolding ih(5) using True Cons p by simp
        ultimately show ?thesis using ih(1-3) by blast
      qed
    qed
  qed
qed

lemma remove_obsolete_ros2_services_none:
  assumes "\<forall>p \<in> set it. RBT.lookup ros2_services (fst p) \<noteq> None"
  shows "remove_obsolete_ros2_services env ros2_services it attempt s = Some s"
  using assms
proof (induction it arbitrary: attempt)
  case Nil
  show ?case by (simp add: remove_obsolete_ros2_services.simps)
next
  case (Cons p it)
  obtain name bridge where p: "p = (name, bridge)" by (cases p)
  from Cons.prems p have "RBT.lookup ros2_services name \<noteq> None" by simp
  then have "remove_obsolete_ros2_services env ros2_services (p # it) attempt s =
      remove_obsolete_ros2_services env ros2_services it 0 s"
    by (subst remove_obsolete_ros2_services.simps) (auto simp: p)
  with Cons show ?case by simp
qed

text \<open>The loop returns when each shutdown it has to call stops throwing at some attempt.\<close>

lemma remove_obsolete_ros2_retry:
  assumes "attempt \<le> k" and "\<not> server_shutdown_throws env bridge k"
    and "RBT.lookup ros2_services name = None"
    and rest: "\<And>s1. \<exists>s'. remove_obsolete_ros2_services env ros2_services rest 0 s1 = Some s'"
  shows "\<exists>s'. remove_obsolete_ros2_services env ros2_services ((name, bridge) # rest) attempt s = Some s'"
  using assms(1)
proof (induction "k - attempt" arbitrary: attempt s)
  case 0
  with assms(2) have "\<not> server_shutdown_throws env bridge attempt" by simp
  with assms(3) rest show ?case
    by (subst remove_obsolete_ros2_services.simps) simp
next
  case (Suc d)
  show ?case
  proof (cases "server_shutdown_throws env bridge attempt")
    case False
    with assms(3) rest show ?thesis
      by (subst remove_obsolete_ros2_services.simps) simp
  next
    case True
    from Suc.hyps(2) Suc.prems have "d = k - Suc attempt" "Suc attempt \<le> k" by arith+
    from Suc.hyps(1)[OF this] True assms(3) show ?thesis
      by (subst remove_obsolete_ros2_services.simps) simp
  qed
qed

lemma remove_obsolete_ros2_services_returns:
  assumes "\<forall>(name, bridge) \<in> set it. RBT.lookup ros2_services name = None \<longrightarrow>
             (\<exists>k. \<not> server_shutdown_throws env bridge k)"
  shows "\<exists>s'. remove_obsolete_ros2_services env ros2_services it 0 s = Some s'"
  using assms
proof (induction it arbitrary: s)
  case Nil
  show ?case by (simp add: remove_obsolete_ros2_services.simps)
next
  case (Cons p it)
  obtain name bridge where p: "p = (name, bridge)" by (cases p)
  from Cons.prems have "\<forall>(name, bridge) \<in> set it. RBT.lookup ros2_services name = None \<longrightarrow>
             (\<exists>k. \<not> server_shutdown_throws env bridge k)" by simp
  then have rest: "\<And>s1. \<exists>s'. remove_obsolete_ros2_services env ros2_services it 0 s1 = Some s'"
    by (rule Cons.IH)
  show ?case
  proof (cases "RBT.lookup ros2_services name = None")
    case False
    then have "remove_obsolete_ros2_services env ros2_services (p # it) 0 s =
      remove_obsolete_ros2_services env ros2_services it 0 s"
      by (subst remove_obsolete_ros2_services.simps) (auto simp: p)
    with rest show ?thesis by simp
  next
    case True
    with Cons.prems p obtain k where "\<not> server_shutdown_throws env bridge k" by auto
    from remove_obsolete_ros2_retry[OF _ this True rest, of 0 s] show ?thesis by (simp add: p)
  qed
qed

lemma filter_calls_of_pass:
  assumes "extends_calls s sA (\<lambda>c. \<not> Q c)" and "extends_calls sA sB Q"
    and "extends_calls sB s' (\<lambda>c. \<not> Q c)"
  shows "filter Q (calls_of_pass s s') = calls_of_pass sA sB"
proof -
  from assms obtain a b c where a: "calls sA = calls s @ a" "\<forall>x \<in> set a. \<not> Q x"
    and b: "calls sB = calls sA @ b" "\<forall>x \<in> set b. Q x"
    and c: "calls s' = calls sB @ c" "\<forall>x \<in> set c. \<not> Q x"
    unfolding extends_calls_def by blast
  have "calls_of_pass s s' = a @ b @ c" by (simp add: calls_of_pass_def a b c)
  moreover have "calls_of_pass sA sB = b" by (simp add: calls_of_pass_def b)
  moreover have "filter Q a = []" "filter Q c = []" "filter Q b = b"
    using a(2) b(2) c(2) by (simp_all add: filter_empty_conv filter_id_conv)
  ultimately show ?thesis by simp
qed

lemma keys_of_entries: "n \<in> fst ` set (RBT.entries t) \<longleftrightarrow> RBT.lookup t n \<noteq> None"
proof -
  have "map_of (RBT.entries t) n = RBT.lookup t n" by (simp add: RBT.map_of_entries)
  then show ?thesis by (metis map_of_eq_None_iff)
qed

lemma entry_of_lookup: "(n, v) \<in> set (RBT.entries t) \<longleftrightarrow> RBT.lookup t n = Some v"
proof -
  have "map_of (RBT.entries t) n = RBT.lookup t n" by (simp add: RBT.map_of_entries)
  moreover have "distinct (map fst (RBT.entries t))" by (rule RBT.distinct_entries)
  ultimately show ?thesis by (metis map_of_eq_Some_iff)
qed

text \<open>What a pass that ends leaves behind, phase by phase.\<close>

lemma update_bridge_phases:
  assumes "update_bridge env ros1_publishers ros1_subscribers ros2_publishers ros2_subscribers
             ros1_services ros2_services s all12 all21 = Some (e, s')"
  defines "s1 \<equiv> fold (bridge_1to2_step env ros2_subscribers all12) (RBT.entries ros1_publishers) s"
  defines "s2 \<equiv> fold (bridge_2to1_step env ros1_subscribers all21) (RBT.entries ros2_publishers) s1"
  shows "bridges_1to2 s' = bridges_1to2 s1" and "bridges_2to1 s' = bridges_2to1 s2"
    and "extends_calls s2 s' service_call"
    and "(\<forall>m. RBT.lookup (service_bridges_1_to_2 s) m = None \<or> RBT.lookup (service_bridges_2_to_1 s) m = None)
          \<Longrightarrow> RBT.lookup (service_bridges_1_to_2 s') n = None \<or> RBT.lookup (service_bridges_2_to_1 s') n = None"
    and "e = None \<Longrightarrow> RBT.lookup ros1_services n = None \<Longrightarrow> RBT.lookup (service_bridges_2_to_1 s') n = None"
    and "e = None \<Longrightarrow> RBT.lookup ros2_services n = None \<Longrightarrow> RBT.lookup (service_bridges_1_to_2 s') n = None"
proof -
  obtain e3 s3 where p3: "create_ros1_services env (RBT.entries ros1_services) s2 = (e3, s3)"
    by (cases "create_ros1_services env (RBT.entries ros1_services) s2")
  note f3 = create_ros1_services_frame[OF p3]
  have s2: "bridges_1to2 s2 = bridges_1to2 s1" "service_bridges_1_to_2 s2 = service_bridges_1_to_2 s"
    "service_bridges_2_to_1 s2 = service_bridges_2_to_1 s"
    by (simp_all add: s2_def s1_def fold_2to1_frame fold_1to2_frame)
  have disj3: "RBT.lookup (service_bridges_1_to_2 s3) n = None \<or> RBT.lookup (service_bridges_2_to_1 s3) n = None"
    if d: "\<forall>m. RBT.lookup (service_bridges_1_to_2 s) m = None \<or> RBT.lookup (service_bridges_2_to_1 s) m = None"
    for n
  proof (cases "RBT.lookup (service_bridges_2_to_1 s3) n = None")
    case True then show ?thesis by simp
  next
    case False
    from create_ros1_services_new[OF p3 False] d f3 s2 show ?thesis by metis
  qed
  have goal: "bridges_1to2 s' = bridges_1to2 s1 \<and> bridges_2to1 s' = bridges_2to1 s2 \<and>
      extends_calls s2 s' service_call \<and>
      ((\<forall>m. RBT.lookup (service_bridges_1_to_2 s) m = None \<or> RBT.lookup (service_bridges_2_to_1 s) m = None)
          \<longrightarrow> RBT.lookup (service_bridges_1_to_2 s') n = None \<or> RBT.lookup (service_bridges_2_to_1 s') n = None) \<and>
      (e = None \<longrightarrow> RBT.lookup ros1_services n = None \<longrightarrow> RBT.lookup (service_bridges_2_to_1 s') n = None) \<and>
      (e = None \<longrightarrow> RBT.lookup ros2_services n = None \<longrightarrow> RBT.lookup (service_bridges_1_to_2 s') n = None)"
  proof (cases e3)
    case (Some err)
    with assms(1) p3 have "e = Some err" "s' = s3"
      by (simp_all add: update_bridge_def s1_def s2_def Let_def)
    with f3 s2 disj3 show ?thesis by simp
  next
    case None
    obtain e4 s4 where p4: "create_ros2_services env (RBT.entries ros2_services) s3 = (e4, s4)"
      by (cases "create_ros2_services env (RBT.entries ros2_services) s3")
    note f4 = create_ros2_services_frame[OF p4]
    from f3 f4 have c4: "extends_calls s2 s4 service_call" using extends_calls_trans by blast
    have disj4: "RBT.lookup (service_bridges_1_to_2 s4) n = None \<or> RBT.lookup (service_bridges_2_to_1 s4) n = None"
      if d: "\<forall>m. RBT.lookup (service_bridges_1_to_2 s) m = None \<or> RBT.lookup (service_bridges_2_to_1 s) m = None"
      for n
    proof (cases "RBT.lookup (service_bridges_1_to_2 s4) n = None")
      case True then show ?thesis by simp
    next
      case False
      from create_ros2_services_new[OF p4 False] disj3[OF d, of n] f4 show ?thesis by metis
    qed
    show ?thesis
    proof (cases e4)
      case (Some err)
      with assms(1) p3 p4 None have "e = Some err" "s' = s4"
        by (simp_all add: update_bridge_def s1_def s2_def Let_def)
      with f3 f4 c4 s2 disj4 show ?thesis by simp
    next
      case n4: None
      let ?s5 = "remove_obsolete_ros1_services ros1_services (RBT.entries (service_bridges_2_to_1 s4)) s4"
      note f5 = remove_obsolete_ros1_services_frame[of ros1_services "RBT.entries (service_bridges_2_to_1 s4)" s4]
      from assms(1) p3 p4 None n4
      have e: "e = None" and p6: "remove_obsolete_ros2_services env ros2_services
          (RBT.entries (service_bridges_1_to_2 ?s5)) 0 ?s5 = Some s'"
        by (auto simp: update_bridge_def s1_def s2_def Let_def)
      note f6 = remove_obsolete_ros2_services_frame[OF p6]
      from f5 f6 have "extends_calls s4 s' service_call" using extends_calls_trans by blast
      with c4 have c: "extends_calls s2 s' service_call" by (rule extends_calls_trans)
      have l21: "RBT.lookup (service_bridges_2_to_1 s') m =
          (if RBT.lookup ros1_services m = None then None else RBT.lookup (service_bridges_2_to_1 s4) m)" for m
        using f5 f6 by (auto simp: keys_of_entries)
      have l12: "RBT.lookup (service_bridges_1_to_2 s') m =
          (if RBT.lookup ros2_services m = None then None else RBT.lookup (service_bridges_1_to_2 s4) m)" for m
        using f5 f6 by (auto simp: keys_of_entries)
      have "RBT.lookup (service_bridges_1_to_2 s') n = None \<or> RBT.lookup (service_bridges_2_to_1 s') n = None"
        if d: "\<forall>m. RBT.lookup (service_bridges_1_to_2 s) m = None \<or> RBT.lookup (service_bridges_2_to_1 s) m = None"
        using disj4[OF d, of n] by (auto simp: l21 l12)
      moreover have "bridges_1to2 s' = bridges_1to2 s1" "bridges_2to1 s' = bridges_2to1 s2"
        using f3 f4 f5 f6 s2 by simp_all
      ultimately show ?thesis using c e by (simp add: l21 l12)
    qed
  qed
  from goal show "bridges_1to2 s' = bridges_1to2 s1" and "bridges_2to1 s' = bridges_2to1 s2"
    and "extends_calls s2 s' service_call" by simp_all
  from goal show "(\<forall>m. RBT.lookup (service_bridges_1_to_2 s) m = None \<or> RBT.lookup (service_bridges_2_to_1 s) m = None)
          \<Longrightarrow> RBT.lookup (service_bridges_1_to_2 s') n = None \<or> RBT.lookup (service_bridges_2_to_1 s') n = None"
    by simp
  from goal show "e = None \<Longrightarrow> RBT.lookup ros1_services n = None \<Longrightarrow> RBT.lookup (service_bridges_2_to_1 s') n = None"
    by simp
  from goal show "e = None \<Longrightarrow> RBT.lookup ros2_services n = None \<Longrightarrow> RBT.lookup (service_bridges_1_to_2 s') n = None"
    by simp
qed

text \<open>The step of one publisher, case by case.\<close>

lemma bridge_1to2_step_skip:
  "wanted_ros2_type env subs all n t1 = None \<Longrightarrow> bridge_1to2_step env subs all (n, t1) s = s"
  by simp

lemma bridge_1to2_step_keep:
  "wanted_ros2_type env subs all n t1 = Some t2 \<Longrightarrow> RBT.lookup (bridges_1to2 s) n = Some b \<Longrightarrow>
     ros1_type_name b = t1 \<Longrightarrow> ros2_type_name b = t2 \<Longrightarrow> bridge_1to2_step env subs all (n, t1) s = s"
  by simp

lemma bridge_1to2_step_replace:
  assumes "wanted_ros2_type env subs all n t1 = Some t2" and "RBT.lookup (bridges_1to2 s) n = Some b"
    and "\<not> (ros1_type_name b = t1 \<and> ros2_type_name b = t2)"
  shows "calls (bridge_1to2_step env subs all (n, t1) s) =
           calls s @ [Erase_bridges_1to2 n, Create_bridge_from_1_to_2 n t1 t2]"
    and "RBT.lookup (bridges_1to2 (bridge_1to2_step env subs all (n, t1) s)) n =
           (case create_bridge_from_1_to_2 env t1 n 10 t2 n 10 of
              Inl what \<Rightarrow> None
            | Inr handles \<Rightarrow> Some \<lparr>bridge_handles = handles, ros1_type_name = t1, ros2_type_name = t2\<rparr>)"
  using assms by (auto simp: create_1to2_def split: sum.splits)

lemma bridge_1to2_step_create:
  assumes "wanted_ros2_type env subs all n t1 = Some t2" and "RBT.lookup (bridges_1to2 s) n = None"
  shows "calls (bridge_1to2_step env subs all (n, t1) s) = calls s @ [Create_bridge_from_1_to_2 n t1 t2]"
    and "RBT.lookup (bridges_1to2 (bridge_1to2_step env subs all (n, t1) s)) n =
           (case create_bridge_from_1_to_2 env t1 n 10 t2 n 10 of
              Inl what \<Rightarrow> None
            | Inr handles \<Rightarrow> Some \<lparr>bridge_handles = handles, ros1_type_name = t1, ros2_type_name = t2\<rparr>)"
  using assms by (auto simp: create_1to2_def split: sum.splits)

lemma bridge_2to1_step_skip:
  "wanted_ros1_type env subs all n t2 = None \<Longrightarrow> bridge_2to1_step env subs all (n, t2) s = s"
  by simp

lemma bridge_2to1_step_keep:
  "wanted_ros1_type env subs all n t2 = Some t1 \<Longrightarrow> RBT.lookup (bridges_2to1 s) n = Some b \<Longrightarrow>
     ros1_type_name b = t1 \<or> ros1_type_name b = '''' \<Longrightarrow> ros2_type_name b = t2 \<Longrightarrow>
     bridge_2to1_step env subs all (n, t2) s = s"
  by auto

lemma bridge_2to1_step_replace:
  assumes "wanted_ros1_type env subs all n t2 = Some t1" and "RBT.lookup (bridges_2to1 s) n = Some b"
    and "\<not> ((ros1_type_name b = t1 \<or> ros1_type_name b = '''') \<and> ros2_type_name b = t2)"
  shows "calls (bridge_2to1_step env subs all (n, t2) s) =
           calls s @ [Erase_bridges_2to1 n, Create_bridge_from_2_to_1 n t2 t1]"
    and "RBT.lookup (bridges_2to1 (bridge_2to1_step env subs all (n, t2) s)) n =
           (case create_bridge_from_2_to_1 env t2 n 10 t1 n 10 of
              Inl what \<Rightarrow> None
            | Inr handles \<Rightarrow> Some \<lparr>bridge_handles = handles, ros1_type_name = t1, ros2_type_name = t2\<rparr>)"
  using assms by (auto simp: create_2to1_def split: sum.splits)

lemma bridge_2to1_step_create:
  assumes "wanted_ros1_type env subs all n t2 = Some t1" and "RBT.lookup (bridges_2to1 s) n = None"
  shows "calls (bridge_2to1_step env subs all (n, t2) s) = calls s @ [Create_bridge_from_2_to_1 n t2 t1]"
    and "RBT.lookup (bridges_2to1 (bridge_2to1_step env subs all (n, t2) s)) n =
           (case create_bridge_from_2_to_1 env t2 n 10 t1 n 10 of
              Inl what \<Rightarrow> None
            | Inr handles \<Rightarrow> Some \<lparr>bridge_handles = handles, ros1_type_name = t1, ros2_type_name = t2\<rparr>)"
  using assms by (auto simp: create_2to1_def split: sum.splits)

text \<open>A pass seen from one topic name that has a ROS 1 publisher.\<close>

lemma update_bridge_1to2_at:
  assumes ub: "update_bridge env ros1_publishers ros1_subscribers ros2_publishers ros2_subscribers
             ros1_services ros2_services s all12 all21 = Some (e, s')"
    and pub: "RBT.lookup ros1_publishers n = Some t1"
  shows "\<exists>sA. RBT.lookup (bridges_1to2 sA) n = RBT.lookup (bridges_1to2 s) n \<and>
           RBT.lookup (bridges_1to2 s') n =
             RBT.lookup (bridges_1to2 (bridge_1to2_step env ros2_subscribers all12 (n, t1) sA)) n \<and>
           filter (topic_call_1to2 n) (calls_of_pass s s') =
             calls_of_pass sA (bridge_1to2_step env ros2_subscribers all12 (n, t1) sA)"
proof -
  let ?s1 = "fold (bridge_1to2_step env ros2_subscribers all12) (RBT.entries ros1_publishers) s"
  let ?s2 = "fold (bridge_2to1_step env ros1_subscribers all21) (RBT.entries ros2_publishers) ?s1"
  note ph = update_bridge_phases[OF ub]
  from pub have mem: "(n, t1) \<in> set (RBT.entries ros1_publishers)" by (simp add: entry_of_lookup)
  from fold_1to2_split[OF RBT.distinct_entries mem, of s env ros2_subscribers all12]
  obtain sA where sA: "RBT.lookup (bridges_1to2 sA) n = RBT.lookup (bridges_1to2 s) n"
    and cA: "extends_calls s sA (\<lambda>c. \<not> topic_call_1to2 n c \<and> \<not> topic_call_2to1 n c)"
    and cB: "extends_calls (bridge_1to2_step env ros2_subscribers all12 (n, t1) sA) ?s1
               (\<lambda>c. \<not> topic_call_1to2 n c \<and> \<not> topic_call_2to1 n c)"
    and lB: "RBT.lookup (bridges_1to2 ?s1) n =
               RBT.lookup (bridges_1to2 (bridge_1to2_step env ros2_subscribers all12 (n, t1) sA)) n"
    by blast
  let ?sB = "bridge_1to2_step env ros2_subscribers all12 (n, t1) sA"
  have c1: "extends_calls s sA (\<lambda>c. \<not> topic_call_1to2 n c)"
    by (rule extends_calls_mono[OF cA]) simp
  have c2: "extends_calls sA ?sB (topic_call_1to2 n)"
    using bridge_1to2_step_calls[of sA env ros2_subscribers all12 "(n, t1)"] by simp
  have "extends_calls ?sB ?s1 (\<lambda>c. \<not> topic_call_1to2 n c)"
    by (rule extends_calls_mono[OF cB]) simp
  moreover have "extends_calls ?s1 ?s2 (\<lambda>c. \<not> topic_call_1to2 n c)"
    by (rule extends_calls_mono[OF fold_2to1_calls]) (auto simp: topic_call_2to1_not_1to2)
  moreover have "extends_calls ?s2 s' (\<lambda>c. \<not> topic_call_1to2 n c)"
    by (rule extends_calls_mono[OF ph(3)]) (simp add: service_call_not_topic)
  ultimately have c3: "extends_calls ?sB s' (\<lambda>c. \<not> topic_call_1to2 n c)"
    by (meson extends_calls_trans)
  from filter_calls_of_pass[OF c1 c2 c3] sA lB ph(1) show ?thesis by auto
qed

lemma update_bridge_1to2_absent:
  assumes ub: "update_bridge env ros1_publishers ros1_subscribers ros2_publishers ros2_subscribers
             ros1_services ros2_services s all12 all21 = Some (e, s')"
    and pub: "RBT.lookup ros1_publishers n = None"
  shows "RBT.lookup (bridges_1to2 s') n = RBT.lookup (bridges_1to2 s) n"
    and "filter (topic_call_1to2 n) (calls_of_pass s s') = []"
proof -
  let ?s1 = "fold (bridge_1to2_step env ros2_subscribers all12) (RBT.entries ros1_publishers) s"
  let ?s2 = "fold (bridge_2to1_step env ros1_subscribers all21) (RBT.entries ros2_publishers) ?s1"
  note ph = update_bridge_phases[OF ub]
  from pub have k: "n \<notin> fst ` set (RBT.entries ros1_publishers)" by (simp add: keys_of_entries)
  from fold_1to2_other[OF k] ph(1) show "RBT.lookup (bridges_1to2 s') n = RBT.lookup (bridges_1to2 s) n"
    by simp
  have "extends_calls s ?s1 (\<lambda>c. \<not> topic_call_1to2 n c)"
    by (rule extends_calls_mono[OF fold_1to2_calls_other[OF k]]) simp
  moreover have "extends_calls ?s1 ?s2 (\<lambda>c. \<not> topic_call_1to2 n c)"
    by (rule extends_calls_mono[OF fold_2to1_calls]) (auto simp: topic_call_2to1_not_1to2)
  moreover have "extends_calls ?s2 s' (\<lambda>c. \<not> topic_call_1to2 n c)"
    by (rule extends_calls_mono[OF ph(3)]) (simp add: service_call_not_topic)
  ultimately have "extends_calls s s' (\<lambda>c. \<not> topic_call_1to2 n c)"
    by (meson extends_calls_trans)
  then show "filter (topic_call_1to2 n) (calls_of_pass s s') = []"
    by (rule extends_calls_filter_none) simp
qed

lemma update_bridge_2to1_at:
  assumes ub: "update_bridge env ros1_publishers ros1_subscribers ros2_publishers ros2_subscribers
             ros1_services ros2_services s all12 all21 = Some (e, s')"
    and pub: "RBT.lookup ros2_publishers n = Some t2"
  shows "\<exists>sA. RBT.lookup (bridges_2to1 sA) n = RBT.lookup (bridges_2to1 s) n \<and>
           RBT.lookup (bridges_2to1 s') n =
             RBT.lookup (bridges_2to1 (bridge_2to1_step env ros1_subscribers all21 (n, t2) sA)) n \<and>
           filter (topic_call_2to1 n) (calls_of_pass s s') =
             calls_of_pass sA (bridge_2to1_step env ros1_subscribers all21 (n, t2) sA)"
proof -
  let ?s1 = "fold (bridge_1to2_step env ros2_subscribers all12) (RBT.entries ros1_publishers) s"
  let ?s2 = "fold (bridge_2to1_step env ros1_subscribers all21) (RBT.entries ros2_publishers) ?s1"
  note ph = update_bridge_phases[OF ub]
  from pub have mem: "(n, t2) \<in> set (RBT.entries ros2_publishers)" by (simp add: entry_of_lookup)
  from fold_2to1_split[OF RBT.distinct_entries mem, of ?s1 env ros1_subscribers all21]
  obtain sA where sA: "RBT.lookup (bridges_2to1 sA) n = RBT.lookup (bridges_2to1 ?s1) n"
    and cA: "extends_calls ?s1 sA (\<lambda>c. \<not> topic_call_1to2 n c \<and> \<not> topic_call_2to1 n c)"
    and cB: "extends_calls (bridge_2to1_step env ros1_subscribers all21 (n, t2) sA) ?s2
               (\<lambda>c. \<not> topic_call_1to2 n c \<and> \<not> topic_call_2to1 n c)"
    and lB: "RBT.lookup (bridges_2to1 ?s2) n =
               RBT.lookup (bridges_2to1 (bridge_2to1_step env ros1_subscribers all21 (n, t2) sA)) n"
    by blast
  let ?sB = "bridge_2to1_step env ros1_subscribers all21 (n, t2) sA"
  have "extends_calls s ?s1 (\<lambda>c. \<not> topic_call_2to1 n c)"
    by (rule extends_calls_mono[OF fold_1to2_calls]) (auto simp: topic_call_1to2_not_2to1)
  moreover have "extends_calls ?s1 sA (\<lambda>c. \<not> topic_call_2to1 n c)"
    by (rule extends_calls_mono[OF cA]) simp
  ultimately have c1: "extends_calls s sA (\<lambda>c. \<not> topic_call_2to1 n c)"
    by (rule extends_calls_trans)
  have c2: "extends_calls sA ?sB (topic_call_2to1 n)"
    using bridge_2to1_step_calls[of sA env ros1_subscribers all21 "(n, t2)"] by simp
  have "extends_calls ?sB ?s2 (\<lambda>c. \<not> topic_call_2to1 n c)"
    by (rule extends_calls_mono[OF cB]) simp
  moreover have "extends_calls ?s2 s' (\<lambda>c. \<not> topic_call_2to1 n c)"
    by (rule extends_calls_mono[OF ph(3)]) (simp add: service_call_not_topic)
  ultimately have c3: "extends_calls ?sB s' (\<lambda>c. \<not> topic_call_2to1 n c)"
    by (rule extends_calls_trans)
  have "RBT.lookup (bridges_2to1 sA) n = RBT.lookup (bridges_2to1 s) n"
    using sA by (simp add: fold_1to2_frame)
  with filter_calls_of_pass[OF c1 c2 c3] lB ph(2) show ?thesis by auto
qed

lemma update_bridge_2to1_absent:
  assumes ub: "update_bridge env ros1_publishers ros1_subscribers ros2_publishers ros2_subscribers
             ros1_services ros2_services s all12 all21 = Some (e, s')"
    and pub: "RBT.lookup ros2_publishers n = None"
  shows "RBT.lookup (bridges_2to1 s') n = RBT.lookup (bridges_2to1 s) n"
    and "filter (topic_call_2to1 n) (calls_of_pass s s') = []"
proof -
  let ?s1 = "fold (bridge_1to2_step env ros2_subscribers all12) (RBT.entries ros1_publishers) s"
  let ?s2 = "fold (bridge_2to1_step env ros1_subscribers all21) (RBT.entries ros2_publishers) ?s1"
  note ph = update_bridge_phases[OF ub]
  from pub have k: "n \<notin> fst ` set (RBT.entries ros2_publishers)" by (simp add: keys_of_entries)
  have "RBT.lookup (bridges_2to1 ?s2) n = RBT.lookup (bridges_2to1 ?s1) n"
    by (rule fold_2to1_other[OF k])
  also have "\<dots> = RBT.lookup (bridges_2to1 s) n" by (simp add: fold_1to2_frame)
  finally show "RBT.lookup (bridges_2to1 s') n = RBT.lookup (bridges_2to1 s) n"
    by (simp add: ph(2))
  have "extends_calls s ?s1 (\<lambda>c. \<not> topic_call_2to1 n c)"
    by (rule extends_calls_mono[OF fold_1to2_calls]) (auto simp: topic_call_1to2_not_2to1)
  moreover have "extends_calls ?s1 ?s2 (\<lambda>c. \<not> topic_call_2to1 n c)"
    by (rule extends_calls_mono[OF fold_2to1_calls_other[OF k]]) simp
  moreover have "extends_calls ?s2 s' (\<lambda>c. \<not> topic_call_2to1 n c)"
    by (rule extends_calls_mono[OF ph(3)]) (simp add: service_call_not_topic)
  ultimately have "extends_calls s s' (\<lambda>c. \<not> topic_call_2to1 n c)"
    by (meson extends_calls_trans)
  then show "filter (topic_call_2to1 n) (calls_of_pass s s') = []"
    by (rule extends_calls_filter_none) simp
qed

subsection \<open>Topic bridges persist\<close>

lemma topic_call_member:
  "c \<in> set cs \<Longrightarrow> P c \<Longrightarrow> filter P cs \<noteq> []"
  by (auto simp: filter_empty_conv)

lemma update_bridge_erase_1to2:
  assumes ub: "update_bridge env ros1_publishers ros1_subscribers ros2_publishers ros2_subscribers
             ros1_services ros2_services s all12 all21 = Some (e, s')"
    and ch: "Erase_bridges_1to2 n \<in> set (calls_of_pass s s') \<or>
             (RBT.lookup (bridges_1to2 s) n \<noteq> None \<and>
              RBT.lookup (bridges_1to2 s') n \<noteq> RBT.lookup (bridges_1to2 s) n)"
  shows "type_change_1to2 env ros1_publishers ros2_subscribers all12 s n"
proof (cases "RBT.lookup ros1_publishers n")
  case None
  from update_bridge_1to2_absent[OF ub None] ch show ?thesis
    by (auto simp: filter_empty_conv)
next
  case (Some t1)
  from update_bridge_1to2_at[OF ub Some] obtain sA
    where sA: "RBT.lookup (bridges_1to2 sA) n = RBT.lookup (bridges_1to2 s) n"
      and l: "RBT.lookup (bridges_1to2 s') n =
             RBT.lookup (bridges_1to2 (bridge_1to2_step env ros2_subscribers all12 (n, t1) sA)) n"
      and c: "filter (topic_call_1to2 n) (calls_of_pass s s') =
             calls_of_pass sA (bridge_1to2_step env ros2_subscribers all12 (n, t1) sA)"
    by blast
  have same: False if "bridge_1to2_step env ros2_subscribers all12 (n, t1) sA = sA"
  proof -
    from that l sA have "RBT.lookup (bridges_1to2 s') n = RBT.lookup (bridges_1to2 s) n" by simp
    moreover from that c have "filter (topic_call_1to2 n) (calls_of_pass s s') = []"
      by (simp add: calls_of_pass_def)
    then have "Erase_bridges_1to2 n \<notin> set (calls_of_pass s s')"
      by (auto simp: filter_empty_conv)
    ultimately show False using ch by simp
  qed
  show ?thesis
  proof (cases "wanted_ros2_type env ros2_subscribers all12 n t1")
    case None
    from same[OF bridge_1to2_step_skip[OF None]] show ?thesis ..
  next
    case w: (Some t2)
    show ?thesis
    proof (cases "RBT.lookup (bridges_1to2 s) n")
      case None
      with sA have n: "RBT.lookup (bridges_1to2 sA) n = None" by simp
      from bridge_1to2_step_create(1)[OF w n] c
      have "filter (topic_call_1to2 n) (calls_of_pass s s') = [Create_bridge_from_1_to_2 n t1 t2]"
        by (simp add: calls_of_pass_def)
      then have "Erase_bridges_1to2 n \<notin> set (filter (topic_call_1to2 n) (calls_of_pass s s'))"
        by simp
      then have "Erase_bridges_1to2 n \<notin> set (calls_of_pass s s')" by simp
      with ch None show ?thesis by simp
    next
      case b: (Some b)
      with sA have bA: "RBT.lookup (bridges_1to2 sA) n = Some b" by simp
      show ?thesis
      proof (cases "ros1_type_name b = t1 \<and> ros2_type_name b = t2")
        case True
        with same[OF bridge_1to2_step_keep[OF w bA]] show ?thesis by simp
      next
        case False
        with Some w b show ?thesis by (simp add: type_change_1to2_def)
      qed
    qed
  qed
qed

lemma update_bridge_erase_2to1:
  assumes ub: "update_bridge env ros1_publishers ros1_subscribers ros2_publishers ros2_subscribers
             ros1_services ros2_services s all12 all21 = Some (e, s')"
    and ch: "Erase_bridges_2to1 n \<in> set (calls_of_pass s s') \<or>
             (RBT.lookup (bridges_2to1 s) n \<noteq> None \<and>
              RBT.lookup (bridges_2to1 s') n \<noteq> RBT.lookup (bridges_2to1 s) n)"
  shows "type_change_2to1 env ros2_publishers ros1_subscribers all21 s n"
proof (cases "RBT.lookup ros2_publishers n")
  case None
  from update_bridge_2to1_absent[OF ub None] ch show ?thesis
    by (auto simp: filter_empty_conv)
next
  case (Some t2)
  from update_bridge_2to1_at[OF ub Some] obtain sA
    where sA: "RBT.lookup (bridges_2to1 sA) n = RBT.lookup (bridges_2to1 s) n"
      and l: "RBT.lookup (bridges_2to1 s') n =
             RBT.lookup (bridges_2to1 (bridge_2to1_step env ros1_subscribers all21 (n, t2) sA)) n"
      and c: "filter (topic_call_2to1 n) (calls_of_pass s s') =
             calls_of_pass sA (bridge_2to1_step env ros1_subscribers all21 (n, t2) sA)"
    by blast
  have same: False if "bridge_2to1_step env ros1_subscribers all21 (n, t2) sA = sA"
  proof -
    from that l sA have "RBT.lookup (bridges_2to1 s') n = RBT.lookup (bridges_2to1 s) n" by simp
    moreover from that c have "filter (topic_call_2to1 n) (calls_of_pass s s') = []"
      by (simp add: calls_of_pass_def)
    then have "Erase_bridges_2to1 n \<notin> set (calls_of_pass s s')"
      by (auto simp: filter_empty_conv)
    ultimately show False using ch by simp
  qed
  show ?thesis
  proof (cases "wanted_ros1_type env ros1_subscribers all21 n t2")
    case None
    from same[OF bridge_2to1_step_skip[OF None]] show ?thesis ..
  next
    case w: (Some t1)
    show ?thesis
    proof (cases "RBT.lookup (bridges_2to1 s) n")
      case None
      with sA have n: "RBT.lookup (bridges_2to1 sA) n = None" by simp
      from bridge_2to1_step_create(1)[OF w n] c
      have "filter (topic_call_2to1 n) (calls_of_pass s s') = [Create_bridge_from_2_to_1 n t2 t1]"
        by (simp add: calls_of_pass_def)
      then have "Erase_bridges_2to1 n \<notin> set (filter (topic_call_2to1 n) (calls_of_pass s s'))"
        by simp
      then have "Erase_bridges_2to1 n \<notin> set (calls_of_pass s s')" by simp
      with ch None show ?thesis by simp
    next
      case b: (Some b)
      with sA have bA: "RBT.lookup (bridges_2to1 sA) n = Some b" by simp
      show ?thesis
      proof (cases "(ros1_type_name b = t1 \<or> ros1_type_name b = '''') \<and> ros2_type_name b = t2")
        case True
        with same[OF bridge_2to1_step_keep[OF w bA]] show ?thesis by simp
      next
        case False
        with Some w b show ?thesis by (simp add: type_change_2to1_def)
      qed
    qed
  qed
qed

lemma run_passes_persist:
  assumes "run_passes all12 all21 passes s = Some (e, s')"
    and "\<forall>(env, snap) \<in> set passes. RBT.lookup (ros1_pubs snap) n = None \<and> RBT.lookup (ros2_pubs snap) n = None"
  shows "RBT.lookup (bridges_1to2 s') n = RBT.lookup (bridges_1to2 s) n \<and>
         RBT.lookup (bridges_2to1 s') n = RBT.lookup (bridges_2to1 s) n"
  using assms
proof (induction passes arbitrary: s)
  case Nil
  then show ?case by simp
next
  case (Cons p passes)
  obtain env snap where p: "p = (env, snap)" by (cases p)
  from Cons.prems(2) p have absent: "RBT.lookup (ros1_pubs snap) n = None" "RBT.lookup (ros2_pubs snap) n = None"
    by simp_all
  from Cons.prems(1) p obtain e1 s1 where
    ub: "update_bridge env (ros1_pubs snap) (ros1_subs snap) (ros2_pubs snap) (ros2_subs snap)
             (ros1_srvs snap) (ros2_srvs snap) s all12 all21 = Some (e1, s1)"
    by (auto split: option.splits)
  have keep: "RBT.lookup (bridges_1to2 s1) n = RBT.lookup (bridges_1to2 s) n"
    "RBT.lookup (bridges_2to1 s1) n = RBT.lookup (bridges_2to1 s) n"
    using update_bridge_1to2_absent(1)[OF ub absent(1)] update_bridge_2to1_absent(1)[OF ub absent(2)]
    by simp_all
  show ?case
  proof (cases e1)
    case (Some err)
    with Cons.prems(1) p ub have "s' = s1" by simp
    with keep show ?thesis by simp
  next
    case None
    with Cons.prems(1) p ub have "run_passes all12 all21 passes s1 = Some (e, s')" by simp
    from Cons.IH[OF this] Cons.prems(2) keep show ?thesis by simp
  qed
qed

text \<open>
  C2. Topic bridges persist. Over any sequence of passes in which the four topic snapshots
  of both domains do not list the name \<open>n\<close>, the entries of \<open>n\<close> in \<^verbatim>\<open>bridges_1to2\<close> and
  \<^verbatim>\<open>bridges_2to1\<close> are after the passes what they were before. And in any one pass, if the
  entry of \<open>n\<close> in \<^verbatim>\<open>bridges_1to2\<close> (in \<^verbatim>\<open>bridges_2to1\<close>) is erased from the map, or the
  map had an entry for \<open>n\<close> and has another or none afterwards, then the pass took the
  type-change replacement path for \<open>n\<close>.
\<close>

theorem topic_bridges_persist:
  "(run_passes bridge_all_1to2_topics bridge_all_2to1_topics passes s = Some (e, s') \<and>
    (\<forall>(env, snap) \<in> set passes.
       RBT.lookup (ros1_pubs snap) n = None \<and> RBT.lookup (ros1_subs snap) n = None \<and>
       RBT.lookup (ros2_pubs snap) n = None \<and> RBT.lookup (ros2_subs snap) n = None)
    \<longrightarrow> RBT.lookup (bridges_1to2 s') n = RBT.lookup (bridges_1to2 s) n \<and>
        RBT.lookup (bridges_2to1 s') n = RBT.lookup (bridges_2to1 s) n) \<and>
   (update_bridge env ros1_publishers ros1_subscribers ros2_publishers ros2_subscribers
        ros1_services ros2_services r bridge_all_1to2_topics bridge_all_2to1_topics = Some (e1, r1)
    \<longrightarrow> (Erase_bridges_1to2 n \<in> set (calls_of_pass r r1) \<or>
         (RBT.lookup (bridges_1to2 r) n \<noteq> None \<and>
          RBT.lookup (bridges_1to2 r1) n \<noteq> RBT.lookup (bridges_1to2 r) n)
         \<longrightarrow> type_change_1to2 env ros1_publishers ros2_subscribers bridge_all_1to2_topics r n) \<and>
        (Erase_bridges_2to1 n \<in> set (calls_of_pass r r1) \<or>
         (RBT.lookup (bridges_2to1 r) n \<noteq> None \<and>
          RBT.lookup (bridges_2to1 r1) n \<noteq> RBT.lookup (bridges_2to1 r) n)
         \<longrightarrow> type_change_2to1 env ros2_publishers ros1_subscribers bridge_all_2to1_topics r n))"
proof (intro conjI impI)
  assume a: "run_passes bridge_all_1to2_topics bridge_all_2to1_topics passes s = Some (e, s') \<and>
    (\<forall>(env, snap) \<in> set passes.
       RBT.lookup (ros1_pubs snap) n = None \<and> RBT.lookup (ros1_subs snap) n = None \<and>
       RBT.lookup (ros2_pubs snap) n = None \<and> RBT.lookup (ros2_subs snap) n = None)"
  then have "\<forall>(env, snap) \<in> set passes. RBT.lookup (ros1_pubs snap) n = None \<and> RBT.lookup (ros2_pubs snap) n = None"
    by auto
  with a have k: "RBT.lookup (bridges_1to2 s') n = RBT.lookup (bridges_1to2 s) n \<and>
         RBT.lookup (bridges_2to1 s') n = RBT.lookup (bridges_2to1 s) n"
    using run_passes_persist by blast
  from k show "RBT.lookup (bridges_1to2 s') n = RBT.lookup (bridges_1to2 s) n" by simp
  from k show "RBT.lookup (bridges_2to1 s') n = RBT.lookup (bridges_2to1 s) n" by simp
next
  assume "update_bridge env ros1_publishers ros1_subscribers ros2_publishers ros2_subscribers
        ros1_services ros2_services r bridge_all_1to2_topics bridge_all_2to1_topics = Some (e1, r1)"
    and "Erase_bridges_1to2 n \<in> set (calls_of_pass r r1) \<or>
         (RBT.lookup (bridges_1to2 r) n \<noteq> None \<and>
          RBT.lookup (bridges_1to2 r1) n \<noteq> RBT.lookup (bridges_1to2 r) n)"
  then show "type_change_1to2 env ros1_publishers ros2_subscribers bridge_all_1to2_topics r n"
    by (rule update_bridge_erase_1to2)
next
  assume "update_bridge env ros1_publishers ros1_subscribers ros2_publishers ros2_subscribers
        ros1_services ros2_services r bridge_all_1to2_topics bridge_all_2to1_topics = Some (e1, r1)"
    and "Erase_bridges_2to1 n \<in> set (calls_of_pass r r1) \<or>
         (RBT.lookup (bridges_2to1 r) n \<noteq> None \<and>
          RBT.lookup (bridges_2to1 r1) n \<noteq> RBT.lookup (bridges_2to1 r) n)"
  then show "type_change_2to1 env ros2_publishers ros1_subscribers bridge_all_2to1_topics r n"
    by (rule update_bridge_erase_2to1)
qed

lemma entries_empty: "RBT.entries (RBT.empty :: (string, 'v) rbt) = []"
  by (simp add: RBT.entries_def RBT.impl_of_empty)

lemma lookup_one: "RBT.lookup (one k v) = [k \<mapsto> v]"
  by (simp add: one_def)

lemma entries_one: "RBT.entries (one k v) = [(k, v)]"
  by (simp add: one_def RBT.entries.rep_eq RBT.insert.rep_eq RBT.empty.rep_eq
      rbt_insert_def rbt_insert_with_key_def)

lemma scan_pass:
  "update_bridge always_bridge (one ''/scan'' ''LaserScan'') RBT.empty RBT.empty
     (one ''/scan'' ''LaserScanB2'') RBT.empty RBT.empty scan_registry False False
   = Some (None, scan_replaced)"
  by (simp add: update_bridge_def entries_one entries_empty lookup_one wanted_ros2_type_def
      create_1to2_def scan_registry_def scan_replaced_def scan_bridge_def always_bridge_def Let_def
      remove_obsolete_ros2_services.simps)

lemma idle_pass:
  "update_bridge always_bridge RBT.empty RBT.empty RBT.empty RBT.empty RBT.empty RBT.empty
     scan_registry False False = Some (None, scan_registry)"
  by (simp add: update_bridge_def entries_empty scan_registry_def Let_def
      remove_obsolete_ros2_services.simps)

lemma unknown_pass:
  "update_bridge always_bridge (one ''/scan'' ''LaserScan'') (one ''/cmd'' ''Twist'')
     (one ''/cmd'' ''TwistB'') (one ''/scan'' ''LaserScanB'') RBT.empty RBT.empty
     unknown_registry False False
   = Some (None, unknown_replaced)"
  by (simp add: update_bridge_def entries_one entries_empty lookup_one wanted_ros2_type_def
      wanted_ros1_type_def create_1to2_def unknown_registry_def unknown_replaced_def scan_bridge_def
      always_bridge_def Let_def remove_obsolete_ros2_services.simps)

theorem topic_bridges_persist_witness:
  "run_passes False False [(always_bridge, idle), (always_bridge, idle)] scan_registry
     = Some (None, scan_registry) \<and>
   RBT.lookup (ros1_pubs idle) ''/scan'' = None \<and> RBT.lookup (ros1_subs idle) ''/scan'' = None \<and>
   RBT.lookup (ros2_pubs idle) ''/scan'' = None \<and> RBT.lookup (ros2_subs idle) ''/scan'' = None \<and>
   RBT.lookup (bridges_1to2 scan_registry) ''/scan'' = Some (scan_bridge ''LaserScan'' ''LaserScanB'') \<and>
   update_bridge always_bridge (one ''/scan'' ''LaserScan'') RBT.empty RBT.empty
     (one ''/scan'' ''LaserScanB2'') RBT.empty RBT.empty scan_registry False False
     = Some (None, scan_replaced) \<and>
   Erase_bridges_1to2 ''/scan'' \<in> set (calls_of_pass scan_registry scan_replaced) \<and>
   type_change_1to2 always_bridge (one ''/scan'' ''LaserScan'') (one ''/scan'' ''LaserScanB2'') False
     scan_registry ''/scan''"
proof -
  have run: "run_passes False False [(always_bridge, idle), (always_bridge, idle)] scan_registry
     = Some (None, scan_registry)"
    by (simp add: idle_def idle_pass)
  have absent: "RBT.lookup (ros1_pubs idle) ''/scan'' = None" "RBT.lookup (ros1_subs idle) ''/scan'' = None"
    "RBT.lookup (ros2_pubs idle) ''/scan'' = None" "RBT.lookup (ros2_subs idle) ''/scan'' = None"
    by (simp_all add: idle_def)
  have entry: "RBT.lookup (bridges_1to2 scan_registry) ''/scan'' = Some (scan_bridge ''LaserScan'' ''LaserScanB'')"
    by (simp add: scan_registry_def lookup_one)
  have erase: "Erase_bridges_1to2 ''/scan'' \<in> set (calls_of_pass scan_registry scan_replaced)"
    by (simp add: calls_of_pass_def scan_registry_def scan_replaced_def)
  from topic_bridges_persist[where passes = "[(always_bridge, idle), (always_bridge, idle)]"
      and s = scan_registry and s' = scan_registry and e = None and n = "''/scan''"
      and bridge_all_1to2_topics = False and bridge_all_2to1_topics = False
      and env = always_bridge and ros1_publishers = "one ''/scan'' ''LaserScan''"
      and ros1_subscribers = RBT.empty and ros2_publishers = RBT.empty
      and ros2_subscribers = "one ''/scan'' ''LaserScanB2''" and ros1_services = RBT.empty
      and ros2_services = RBT.empty and r = scan_registry and ?e1.0 = None and ?r1.0 = scan_replaced]
    run absent entry scan_pass erase
  show ?thesis by simp
qed

subsection \<open>Type-change replacement\<close>

text \<open>
  C5. Type-change replacement. If \<^verbatim>\<open>bridges_1to2\<close> holds an entry for \<open>n\<close> with the recorded
  types \<open>(Ta, Tb)\<close> and the snapshots want the pair \<open>(Ta, Tb')\<close> with \<open>Tb' \<noteq> Tb\<close>, then the
  calls of one pass that concern \<open>n\<close> in this direction are exactly one erasure of the
  entry followed by one creation attempt with the types \<open>(Ta, Tb')\<close>; the entry afterwards
  is the new bridge when the factory returned one and is missing when it threw.
\<close>

theorem type_change_replacement:
  assumes "update_bridge env ros1_publishers ros1_subscribers ros2_publishers ros2_subscribers
             ros1_services ros2_services s bridge_all_1to2_topics bridge_all_2to1_topics = Some (e, s')"
    and "RBT.lookup (bridges_1to2 s) n = Some bridge"
    and "ros1_type_name bridge = Ta" and "ros2_type_name bridge = Tb"
    and "RBT.lookup ros1_publishers n = Some Ta"
    and "wanted_ros2_type env ros2_subscribers bridge_all_1to2_topics n Ta = Some Tb'"
    and "Tb' \<noteq> Tb"
  shows "filter (topic_call_1to2 n) (calls_of_pass s s') =
           [Erase_bridges_1to2 n, Create_bridge_from_1_to_2 n Ta Tb'] \<and>
         RBT.lookup (bridges_1to2 s') n =
           (case create_bridge_from_1_to_2 env Ta n 10 Tb' n 10 of
              Inl what \<Rightarrow> None
            | Inr handles \<Rightarrow>
                Some \<lparr>bridge_handles = handles, ros1_type_name = Ta, ros2_type_name = Tb'\<rparr>)"
proof -
  from update_bridge_1to2_at[OF assms(1) assms(5)] obtain sA
    where sA: "RBT.lookup (bridges_1to2 sA) n = RBT.lookup (bridges_1to2 s) n"
      and l: "RBT.lookup (bridges_1to2 s') n =
             RBT.lookup (bridges_1to2 (bridge_1to2_step env ros2_subscribers bridge_all_1to2_topics (n, Ta) sA)) n"
      and c: "filter (topic_call_1to2 n) (calls_of_pass s s') =
             calls_of_pass sA (bridge_1to2_step env ros2_subscribers bridge_all_1to2_topics (n, Ta) sA)"
    by blast
  from sA assms(2) have bA: "RBT.lookup (bridges_1to2 sA) n = Some bridge" by simp
  from assms(4,7) have mismatch: "\<not> (ros1_type_name bridge = Ta \<and> ros2_type_name bridge = Tb')" by auto
  note r = bridge_1to2_step_replace[OF assms(6) bA mismatch]
  from c r(1) have "filter (topic_call_1to2 n) (calls_of_pass s s') =
           [Erase_bridges_1to2 n, Create_bridge_from_1_to_2 n Ta Tb']"
    by (simp add: calls_of_pass_def)
  with l r(2) show ?thesis by simp
qed

theorem type_change_replacement_witness:
  "update_bridge always_bridge (one ''/scan'' ''LaserScan'') RBT.empty RBT.empty
     (one ''/scan'' ''LaserScanB2'') RBT.empty RBT.empty scan_registry False False
     = Some (None, scan_replaced) \<and>
   RBT.lookup (bridges_1to2 scan_registry) ''/scan'' = Some (scan_bridge ''LaserScan'' ''LaserScanB'') \<and>
   RBT.lookup (one ''/scan'' ''LaserScan'') ''/scan'' = Some ''LaserScan'' \<and>
   wanted_ros2_type always_bridge (one ''/scan'' ''LaserScanB2'') False ''/scan'' ''LaserScan''
     = Some ''LaserScanB2'' \<and>
   ''LaserScanB2'' \<noteq> ''LaserScanB'' \<and>
   filter (topic_call_1to2 ''/scan'') (calls_of_pass scan_registry scan_replaced) =
     [Erase_bridges_1to2 ''/scan'', Create_bridge_from_1_to_2 ''/scan'' ''LaserScan'' ''LaserScanB2''] \<and>
   RBT.lookup (bridges_1to2 scan_replaced) ''/scan'' = Some (scan_bridge ''LaserScan'' ''LaserScanB2'')"
proof -
  have entry: "RBT.lookup (bridges_1to2 scan_registry) ''/scan'' = Some (scan_bridge ''LaserScan'' ''LaserScanB'')"
    by (simp add: scan_registry_def lookup_one)
  have types: "ros1_type_name (scan_bridge ''LaserScan'' ''LaserScanB'') = ''LaserScan''"
    "ros2_type_name (scan_bridge ''LaserScan'' ''LaserScanB'') = ''LaserScanB''"
    by (simp_all add: scan_bridge_def)
  have pub: "RBT.lookup (one ''/scan'' ''LaserScan'') ''/scan'' = Some ''LaserScan''"
    by (simp add: lookup_one)
  have want: "wanted_ros2_type always_bridge (one ''/scan'' ''LaserScanB2'') False ''/scan'' ''LaserScan''
     = Some ''LaserScanB2''"
    by (simp add: wanted_ros2_type_def lookup_one)
  have diff: "''LaserScanB2'' \<noteq> ''LaserScanB''" by simp
  from type_change_replacement[OF scan_pass entry types pub want diff] scan_pass entry pub want
  show ?thesis by (simp add: always_bridge_def scan_bridge_def)
qed

subsection \<open>Loose type equality\<close>

text \<open>
  C6. Loose type equality in the 2to1 direction. An entry of \<^verbatim>\<open>bridges_2to1\<close> for \<open>n\<close>
  whose recorded ROS 2 type is the wanted one and whose recorded ROS 1 type is the wanted
  one or the empty string is kept by a pass: the same entry is in the map afterwards and the
  pass neither erases nor creates a 2to1 bridge for \<open>n\<close>. In the 1to2 direction an entry
  for a wanted name is kept in this way exactly when both recorded types equal the wanted
  ones.
\<close>

theorem loose_type_equality:
  assumes "update_bridge env ros1_publishers ros1_subscribers ros2_publishers ros2_subscribers
             ros1_services ros2_services s bridge_all_1to2_topics bridge_all_2to1_topics = Some (e, s')"
  shows "(RBT.lookup ros2_publishers n = Some ros2_type \<and>
          wanted_ros1_type env ros1_subscribers bridge_all_2to1_topics n ros2_type = Some ros1_type \<and>
          RBT.lookup (bridges_2to1 s) n = Some bridge \<and>
          ros2_type_name bridge = ros2_type \<and>
          (ros1_type_name bridge = ros1_type \<or> ros1_type_name bridge = '''')
          \<longrightarrow> RBT.lookup (bridges_2to1 s') n = Some bridge \<and>
              filter (topic_call_2to1 n) (calls_of_pass s s') = []) \<and>
         (RBT.lookup ros1_publishers m = Some t1 \<and>
          wanted_ros2_type env ros2_subscribers bridge_all_1to2_topics m t1 = Some t2 \<and>
          RBT.lookup (bridges_1to2 s) m = Some b
          \<longrightarrow> (RBT.lookup (bridges_1to2 s') m = Some b \<and>
               filter (topic_call_1to2 m) (calls_of_pass s s') = []
               \<longleftrightarrow> ros1_type_name b = t1 \<and> ros2_type_name b = t2))"
proof (intro conjI impI)
  assume a: "RBT.lookup ros2_publishers n = Some ros2_type \<and>
          wanted_ros1_type env ros1_subscribers bridge_all_2to1_topics n ros2_type = Some ros1_type \<and>
          RBT.lookup (bridges_2to1 s) n = Some bridge \<and>
          ros2_type_name bridge = ros2_type \<and>
          (ros1_type_name bridge = ros1_type \<or> ros1_type_name bridge = '''')"
  then have pub: "RBT.lookup ros2_publishers n = Some ros2_type" by simp
  from update_bridge_2to1_at[OF assms pub] obtain sA
    where sA: "RBT.lookup (bridges_2to1 sA) n = RBT.lookup (bridges_2to1 s) n"
      and l: "RBT.lookup (bridges_2to1 s') n =
             RBT.lookup (bridges_2to1 (bridge_2to1_step env ros1_subscribers bridge_all_2to1_topics (n, ros2_type) sA)) n"
      and c: "filter (topic_call_2to1 n) (calls_of_pass s s') =
             calls_of_pass sA (bridge_2to1_step env ros1_subscribers bridge_all_2to1_topics (n, ros2_type) sA)"
    by blast
  from a sA have bA: "RBT.lookup (bridges_2to1 sA) n = Some bridge" by simp
  from a have w: "wanted_ros1_type env ros1_subscribers bridge_all_2to1_topics n ros2_type = Some ros1_type"
    and t1: "ros1_type_name bridge = ros1_type \<or> ros1_type_name bridge = []"
    and t2: "ros2_type_name bridge = ros2_type"
    by auto
  have "bridge_2to1_step env ros1_subscribers bridge_all_2to1_topics (n, ros2_type) sA = sA"
    by (rule bridge_2to1_step_keep[OF w bA t1 t2])
  with l c bA show "RBT.lookup (bridges_2to1 s') n = Some bridge"
    and "filter (topic_call_2to1 n) (calls_of_pass s s') = []"
    by (simp_all add: calls_of_pass_def)
next
  assume a: "RBT.lookup ros1_publishers m = Some t1 \<and>
          wanted_ros2_type env ros2_subscribers bridge_all_1to2_topics m t1 = Some t2 \<and>
          RBT.lookup (bridges_1to2 s) m = Some b"
  then have pub: "RBT.lookup ros1_publishers m = Some t1"
    and want: "wanted_ros2_type env ros2_subscribers bridge_all_1to2_topics m t1 = Some t2" by simp_all
  from update_bridge_1to2_at[OF assms pub] obtain sA
    where sA: "RBT.lookup (bridges_1to2 sA) m = RBT.lookup (bridges_1to2 s) m"
      and l: "RBT.lookup (bridges_1to2 s') m =
             RBT.lookup (bridges_1to2 (bridge_1to2_step env ros2_subscribers bridge_all_1to2_topics (m, t1) sA)) m"
      and c: "filter (topic_call_1to2 m) (calls_of_pass s s') =
             calls_of_pass sA (bridge_1to2_step env ros2_subscribers bridge_all_1to2_topics (m, t1) sA)"
    by blast
  from a sA have bA: "RBT.lookup (bridges_1to2 sA) m = Some b" by simp
  show "(RBT.lookup (bridges_1to2 s') m = Some b \<and>
               filter (topic_call_1to2 m) (calls_of_pass s s') = [])
        \<longleftrightarrow> (ros1_type_name b = t1 \<and> ros2_type_name b = t2)"
  proof (cases "ros1_type_name b = t1 \<and> ros2_type_name b = t2")
    case True
    then have "bridge_1to2_step env ros2_subscribers bridge_all_1to2_topics (m, t1) sA = sA"
      by (intro bridge_1to2_step_keep[OF want bA]) simp_all
    with l c bA True show ?thesis by (simp add: calls_of_pass_def)
  next
    case False
    from bridge_1to2_step_replace(1)[OF want bA False] c
    have "filter (topic_call_1to2 m) (calls_of_pass s s') \<noteq> []"
      by (simp add: calls_of_pass_def)
    with False show ?thesis by simp
  qed
qed

theorem loose_type_equality_witness:
  "update_bridge always_bridge (one ''/scan'' ''LaserScan'') (one ''/cmd'' ''Twist'')
     (one ''/cmd'' ''TwistB'') (one ''/scan'' ''LaserScanB'') RBT.empty RBT.empty
     unknown_registry False False = Some (None, unknown_replaced) \<and>
   RBT.lookup (one ''/cmd'' ''TwistB'') ''/cmd'' = Some ''TwistB'' \<and>
   wanted_ros1_type always_bridge (one ''/cmd'' ''Twist'') False ''/cmd'' ''TwistB'' = Some ''Twist'' \<and>
   RBT.lookup (bridges_2to1 unknown_registry) ''/cmd'' = Some (scan_bridge '''' ''TwistB'') \<and>
   RBT.lookup (bridges_2to1 unknown_replaced) ''/cmd'' = Some (scan_bridge '''' ''TwistB'') \<and>
   filter (topic_call_2to1 ''/cmd'') (calls_of_pass unknown_registry unknown_replaced) = [] \<and>
   RBT.lookup (one ''/scan'' ''LaserScan'') ''/scan'' = Some ''LaserScan'' \<and>
   wanted_ros2_type always_bridge (one ''/scan'' ''LaserScanB'') False ''/scan'' ''LaserScan''
     = Some ''LaserScanB'' \<and>
   RBT.lookup (bridges_1to2 unknown_registry) ''/scan'' = Some (scan_bridge '''' ''LaserScanB'') \<and>
   \<not> (RBT.lookup (bridges_1to2 unknown_replaced) ''/scan'' = Some (scan_bridge '''' ''LaserScanB'') \<and>
      filter (topic_call_1to2 ''/scan'') (calls_of_pass unknown_registry unknown_replaced) = [])"
proof -
  have h: "RBT.lookup (one ''/cmd'' ''TwistB'') ''/cmd'' = Some ''TwistB''"
    "wanted_ros1_type always_bridge (one ''/cmd'' ''Twist'') False ''/cmd'' ''TwistB'' = Some ''Twist''"
    "RBT.lookup (bridges_2to1 unknown_registry) ''/cmd'' = Some (scan_bridge '''' ''TwistB'')"
    "RBT.lookup (one ''/scan'' ''LaserScan'') ''/scan'' = Some ''LaserScan''"
    "wanted_ros2_type always_bridge (one ''/scan'' ''LaserScanB'') False ''/scan'' ''LaserScan''
       = Some ''LaserScanB''"
    "RBT.lookup (bridges_1to2 unknown_registry) ''/scan'' = Some (scan_bridge '''' ''LaserScanB'')"
    by (simp_all add: lookup_one wanted_ros1_type_def wanted_ros2_type_def unknown_registry_def)
  have t: "ros2_type_name (scan_bridge '''' ''TwistB'') = ''TwistB''"
    "ros1_type_name (scan_bridge '''' ''TwistB'') = ''''"
    "ros1_type_name (scan_bridge '''' ''LaserScanB'') \<noteq> ''LaserScan''"
    by (simp_all add: scan_bridge_def)
  from loose_type_equality[OF unknown_pass, of "''/cmd''" "''TwistB''" "''Twist''"
      "scan_bridge '''' ''TwistB''" "''/scan''" "''LaserScan''" "''LaserScanB''"
      "scan_bridge '''' ''LaserScanB''"] h t unknown_pass
  show ?thesis by simp
qed

subsection \<open>One direction for each service\<close>

lemma run_passes_exclusive:
  assumes "run_passes all12 all21 passes s = Some (e, s')"
    and "\<forall>m. RBT.lookup (service_bridges_1_to_2 s) m = None \<or> RBT.lookup (service_bridges_2_to_1 s) m = None"
  shows "RBT.lookup (service_bridges_1_to_2 s') n = None \<or> RBT.lookup (service_bridges_2_to_1 s') n = None"
  using assms
proof (induction passes arbitrary: s)
  case Nil
  then show ?case by simp
next
  case (Cons p passes)
  obtain env snap where p: "p = (env, snap)" by (cases p)
  from Cons.prems(1) p obtain e1 s1 where
    ub: "update_bridge env (ros1_pubs snap) (ros1_subs snap) (ros2_pubs snap) (ros2_subs snap)
             (ros1_srvs snap) (ros2_srvs snap) s all12 all21 = Some (e1, s1)"
    by (auto split: option.splits)
  have d1: "\<forall>m. RBT.lookup (service_bridges_1_to_2 s1) m = None \<or> RBT.lookup (service_bridges_2_to_1 s1) m = None"
    using update_bridge_phases(4)[OF ub Cons.prems(2)] by simp
  show ?case
  proof (cases e1)
    case (Some err)
    with Cons.prems(1) p ub have "s' = s1" by simp
    with d1 show ?thesis by simp
  next
    case None
    with Cons.prems(1) p ub have "run_passes all12 all21 passes s1 = Some (e, s')" by simp
    from Cons.IH[OF this d1] show ?thesis .
  qed
qed

text \<open>
  C4. Service-direction mutual exclusion. Starting from empty registries, after any sequence
  of passes (each with its own snapshots and its own behaviour of the bridge factory) that
  ends, whether the last pass returned or an exception left it, no service name has an entry
  in both \<^verbatim>\<open>service_bridges_1_to_2\<close> and \<^verbatim>\<open>service_bridges_2_to_1\<close>.
\<close>

theorem service_direction_exclusive:
  assumes "run_passes bridge_all_1to2_topics bridge_all_2to1_topics passes empty_registry = Some (e, s')"
  shows "\<not> (RBT.lookup (service_bridges_1_to_2 s') n \<noteq> None \<and>
            RBT.lookup (service_bridges_2_to_1 s') n \<noteq> None)"
proof -
  have "\<forall>m. RBT.lookup (service_bridges_1_to_2 (empty_registry :: ('a, 'b, 'c, 'd) registry)) m = None \<or>
            RBT.lookup (service_bridges_2_to_1 (empty_registry :: ('a, 'b, 'c, 'd) registry)) m = None"
    by (simp add: empty_registry_def)
  from run_passes_exclusive[OF assms this, of n] show ?thesis by auto
qed

lemma insert_empty_one: "RBT.insert k v RBT.empty = one k v"
  by (simp add: one_def)

lemma delete_one: "RBT.delete k (one k v) = RBT.empty"
proof -
  have "RBT.lookup (RBT.delete k (one k v)) = Map.empty" by (simp add: lookup_one)
  then show ?thesis by (simp only: RBT.lookup_empty_empty)
qed

lemma add_service_details:
  "at_key (RBT.insert ''package'' ''srvs'' (one ''name'' ''Add'')) ''package'' = Inr ''srvs''"
  "at_key (RBT.insert ''package'' ''srvs'' (one ''name'' ''Add'')) ''name'' = Inr ''Add''"
  by (simp_all add: at_key_def lookup_one)

lemma both_offer_pass:
  "update_bridge always_bridge (ros1_pubs both_offer) (ros1_subs both_offer) (ros2_pubs both_offer)
     (ros2_subs both_offer) (ros1_srvs both_offer) (ros2_srvs both_offer) empty_registry False False
   = Some (None, add_2_to_1)"
  by (simp add: update_bridge_def both_offer_def idle_def add_service_def empty_registry_def
      add_2_to_1_def entries_one entries_empty lookup_one add_service_details always_bridge_def
      insert_empty_one Let_def remove_obsolete_ros2_services.simps)

lemma ros2_offers_pass_1:
  "update_bridge always_bridge (ros1_pubs ros2_offers) (ros1_subs ros2_offers) (ros2_pubs ros2_offers)
     (ros2_subs ros2_offers) (ros1_srvs ros2_offers) (ros2_srvs ros2_offers) add_2_to_1 False False
   = Some (None, add_removed)"
  by (simp add: update_bridge_def ros2_offers_def idle_def add_service_def add_2_to_1_def
      add_removed_def entries_one entries_empty lookup_one delete_one Let_def
      remove_obsolete_ros2_services.simps)

lemma ros2_offers_pass_2:
  "update_bridge always_bridge (ros1_pubs ros2_offers) (ros1_subs ros2_offers) (ros2_pubs ros2_offers)
     (ros2_subs ros2_offers) (ros1_srvs ros2_offers) (ros2_srvs ros2_offers) add_removed False False
   = Some (None, add_1_to_2)"
  by (simp add: update_bridge_def ros2_offers_def idle_def add_service_def add_removed_def
      add_1_to_2_def entries_one entries_empty lookup_one add_service_details always_bridge_def
      insert_empty_one Let_def remove_obsolete_ros2_services.simps)

theorem service_direction_exclusive_witness:
  "run_passes False False
     [(always_bridge, both_offer), (always_bridge, ros2_offers), (always_bridge, ros2_offers)]
     empty_registry = Some (None, add_1_to_2) \<and>
   RBT.lookup (service_bridges_1_to_2 add_1_to_2) ''/add'' = Some () \<and>
   RBT.lookup (service_bridges_2_to_1 add_1_to_2) ''/add'' = None"
proof -
  have run: "run_passes False False
     [(always_bridge, both_offer), (always_bridge, ros2_offers), (always_bridge, ros2_offers)]
     empty_registry = Some (None, add_1_to_2)"
    by (simp add: both_offer_pass ros2_offers_pass_1 ros2_offers_pass_2)
  have l12: "RBT.lookup (service_bridges_1_to_2 add_1_to_2) ''/add'' = Some ()"
    by (simp add: add_1_to_2_def lookup_one)
  have l21: "RBT.lookup (service_bridges_2_to_1 add_1_to_2) ''/add'' = None"
    using service_direction_exclusive[OF run, of "''/add''"] l12
    by (cases "RBT.lookup (service_bridges_2_to_1 add_1_to_2) ''/add''") auto
  from run l12 l21 show ?thesis by (intro conjI)
qed

subsection \<open>Removal of service bridges\<close>

lemma update_bridge_returns:
  assumes wf: "services_well_formed ros1_services" "services_well_formed ros2_services"
    and ok: "\<forall>bridge. \<exists>k. \<not> server_shutdown_throws env bridge k"
  shows "\<exists>r. update_bridge env ros1_publishers ros1_subscribers ros2_publishers ros2_subscribers
             ros1_services ros2_services s all12 all21 = Some (None, r)"
proof -
  let ?s1 = "fold (bridge_1to2_step env ros2_subscribers all12) (RBT.entries ros1_publishers) s"
  let ?s2 = "fold (bridge_2to1_step env ros1_subscribers all21) (RBT.entries ros2_publishers) ?s1"
  from wf(1) have "\<forall>p \<in> set (RBT.entries ros1_services).
      RBT.lookup (snd p) ''package'' \<noteq> None \<and> RBT.lookup (snd p) ''name'' \<noteq> None"
    by (auto simp: services_well_formed_def)
  then have "fst (create_ros1_services env (RBT.entries ros1_services) ?s2) = None"
    by (rule create_ros1_services_ok)
  then obtain s3 where p3: "create_ros1_services env (RBT.entries ros1_services) ?s2 = (None, s3)"
    by (cases "create_ros1_services env (RBT.entries ros1_services) ?s2") auto
  from wf(2) have "\<forall>p \<in> set (RBT.entries ros2_services).
      RBT.lookup (snd p) ''package'' \<noteq> None \<and> RBT.lookup (snd p) ''name'' \<noteq> None"
    by (auto simp: services_well_formed_def)
  then have "fst (create_ros2_services env (RBT.entries ros2_services) s3) = None"
    by (rule create_ros2_services_ok)
  then obtain s4 where p4: "create_ros2_services env (RBT.entries ros2_services) s3 = (None, s4)"
    by (cases "create_ros2_services env (RBT.entries ros2_services) s3") auto
  let ?s5 = "remove_obsolete_ros1_services ros1_services (RBT.entries (service_bridges_2_to_1 s4)) s4"
  from ok have "\<forall>(name, bridge) \<in> set (RBT.entries (service_bridges_1_to_2 ?s5)).
      RBT.lookup ros2_services name = None \<longrightarrow> (\<exists>k. \<not> server_shutdown_throws env bridge k)"
    by auto
  from remove_obsolete_ros2_services_returns[OF this] obtain r where
    "remove_obsolete_ros2_services env ros2_services (RBT.entries (service_bridges_1_to_2 ?s5)) 0 ?s5 = Some r"
    by blast
  with p3 p4 have "update_bridge env ros1_publishers ros1_subscribers ros2_publishers ros2_subscribers
             ros1_services ros2_services s all12 all21 = Some (None, r)"
    by (simp add: update_bridge_def Let_def)
  then show ?thesis ..
qed

lemma remove_obsolete_ros2_stuck_aux:
  assumes "remove_obsolete_ros2_services env ros2_services it attempt s = Some s'"
  shows "\<not> (\<exists>name bridge rest. it = (name, bridge) # rest \<and> RBT.lookup ros2_services name = None \<and>
              (\<forall>k. server_shutdown_throws env bridge k))"
  using assms
proof (induction env ros2_services it attempt s s'
    rule: remove_obsolete_ros2_services.raw_induct[rotated 1, consumes 1])
  case (1 f env ros2_services it attempt s s')
  show ?case
  proof
    assume "\<exists>name bridge rest. it = (name, bridge) # rest \<and> RBT.lookup ros2_services name = None \<and>
              (\<forall>k. server_shutdown_throws env bridge k)"
    then obtain name bridge rest where it: "it = (name, bridge) # rest"
      and ob: "RBT.lookup ros2_services name = None"
      and th: "\<forall>k. server_shutdown_throws env bridge k" by blast
    from 1(2) it ob th
    have "f env ros2_services it (Suc attempt) (s\<lparr>calls := calls s @ [Server_shutdown name]\<rparr>) = Some s'"
      by simp
    from 1(1)[OF this] it ob th show False by blast
  qed
qed

text \<open>
  While the shutdown of the entry under the iterator throws at every attempt, the loop of
  lines 413-425 stays at that entry and does not return.
\<close>

lemma remove_obsolete_ros2_stuck:
  assumes "RBT.lookup ros2_services name = None" and "\<forall>k. server_shutdown_throws env bridge k"
  shows "remove_obsolete_ros2_services env ros2_services ((name, bridge) # rest) attempt s = None"
proof (cases "remove_obsolete_ros2_services env ros2_services ((name, bridge) # rest) attempt s")
  case None
  then show ?thesis .
next
  case (Some s')
  from remove_obsolete_ros2_stuck_aux[OF Some] assms show ?thesis by blast
qed

text \<open>
  What the two removal loops of lines 399-425 do reach: a pass that returns leaves no entry
  of \<^verbatim>\<open>service_bridges_2_to_1\<close> (of \<^verbatim>\<open>service_bridges_1_to_2\<close>) for a name that the
  \<^verbatim>\<open>ros1_services\<close> (the \<^verbatim>\<open>ros2_services\<close>) snapshot does not list, and the pass does
  return when every descriptor of the two service snapshots has its \<^verbatim>\<open>package\<close> and
  \<^verbatim>\<open>name\<close> keys and no \<^verbatim>\<open>server.shutdown()\<close> throws at every call.
\<close>

lemma service_bridges_volatile:
  "(update_bridge env ros1_publishers ros1_subscribers ros2_publishers ros2_subscribers
      ros1_services ros2_services s bridge_all_1to2_topics bridge_all_2to1_topics = Some (None, s')
    \<longrightarrow> (RBT.lookup ros1_services n = None \<longrightarrow> RBT.lookup (service_bridges_2_to_1 s') n = None) \<and>
        (RBT.lookup ros2_services n = None \<longrightarrow> RBT.lookup (service_bridges_1_to_2 s') n = None)) \<and>
   (services_well_formed ros1_services \<and> services_well_formed ros2_services \<and>
    (\<forall>bridge. \<exists>k. \<not> server_shutdown_throws env bridge k)
    \<longrightarrow> (\<exists>r. update_bridge env ros1_publishers ros1_subscribers ros2_publishers ros2_subscribers
              ros1_services ros2_services s bridge_all_1to2_topics bridge_all_2to1_topics
            = Some (None, r)))"
proof (intro conjI impI)
  assume ub: "update_bridge env ros1_publishers ros1_subscribers ros2_publishers ros2_subscribers
      ros1_services ros2_services s bridge_all_1to2_topics bridge_all_2to1_topics = Some (None, s')"
  {
    assume "RBT.lookup ros1_services n = None"
    with update_bridge_phases(5)[OF ub] show "RBT.lookup (service_bridges_2_to_1 s') n = None" by simp
  }
  {
    assume "RBT.lookup ros2_services n = None"
    with update_bridge_phases(6)[OF ub] show "RBT.lookup (service_bridges_1_to_2 s') n = None" by simp
  }
next
  assume "services_well_formed ros1_services \<and> services_well_formed ros2_services \<and>
    (\<forall>bridge. \<exists>k. \<not> server_shutdown_throws env bridge k)"
  then show "\<exists>r. update_bridge env ros1_publishers ros1_subscribers ros2_publishers ros2_subscribers
              ros1_services ros2_services s bridge_all_1to2_topics bridge_all_2to1_topics
            = Some (None, r)"
    using update_bridge_returns by blast
qed

lemma entries_two: "RBT.entries (RBT.insert ''/b'' ''server_b'' (one ''/a'' ''server_a'')) = [(''/a'', ''server_a''), (''/b'', ''server_b'')]"
  unfolding one_def by code_simp

lemma delete_two: "RBT.delete ''/b'' (RBT.delete ''/a'' (RBT.insert ''/b'' ''server_b'' (one ''/a'' ''server_a''))) = RBT.empty"
proof -
  have "RBT.lookup (RBT.delete ''/b'' (RBT.delete ''/a'' (RBT.insert ''/b'' ''server_b'' (one ''/a'' ''server_a''))))
          = Map.empty"
    by (simp add: lookup_one fun_eq_iff)
  then show ?thesis by (simp only: RBT.lookup_empty_empty)
qed

lemma services_well_formed_empty: "services_well_formed RBT.empty"
  by (simp add: services_well_formed_def entries_empty)

lemma flaky_pass:
  "update_bridge flaky_shutdown RBT.empty RBT.empty RBT.empty RBT.empty RBT.empty RBT.empty
     two_services False False = Some (None, two_services_removed)"
  by (simp add: update_bridge_def two_services_def two_services_removed_def flaky_shutdown_def
      entries_empty entries_one entries_two delete_one delete_two Let_def
      remove_obsolete_ros2_services.simps)

text \<open>
  An instance: \<^verbatim>\<open>/c\<close> is registered in \<^verbatim>\<open>service_bridges_2_to_1\<close>, \<^verbatim>\<open>/a\<close> and \<^verbatim>\<open>/b\<close> in
  \<^verbatim>\<open>service_bridges_1_to_2\<close>, the snapshots list none of them and every shutdown succeeds
  in the end. The pass returns with the three entries removed.
\<close>

lemma service_bridges_volatile_instance:
  "services_well_formed RBT.empty \<and>
   (\<forall>bridge. \<exists>k. \<not> server_shutdown_throws flaky_shutdown bridge k) \<and>
   server_shutdown_throws flaky_shutdown ''server_a'' 0 \<and>
   update_bridge flaky_shutdown RBT.empty RBT.empty RBT.empty RBT.empty RBT.empty RBT.empty
     two_services False False = Some (None, two_services_removed) \<and>
   RBT.lookup (service_bridges_2_to_1 two_services) ''/c'' = Some () \<and>
   RBT.lookup (service_bridges_1_to_2 two_services) ''/a'' = Some ''server_a'' \<and>
   RBT.lookup (service_bridges_1_to_2 two_services) ''/b'' = Some ''server_b'' \<and>
   RBT.lookup (service_bridges_2_to_1 two_services_removed) ''/c'' = None \<and>
   RBT.lookup (service_bridges_1_to_2 two_services_removed) ''/a'' = None \<and>
   RBT.lookup (service_bridges_1_to_2 two_services_removed) ''/b'' = None"
proof -
  have ok: "\<forall>bridge. \<exists>k. \<not> server_shutdown_throws flaky_shutdown bridge k"
    by (auto simp: flaky_shutdown_def intro: exI[of _ 2])
  have first: "server_shutdown_throws flaky_shutdown ''server_a'' 0" by (simp add: flaky_shutdown_def)
  have before: "RBT.lookup (service_bridges_2_to_1 two_services) ''/c'' = Some ()"
    "RBT.lookup (service_bridges_1_to_2 two_services) ''/a'' = Some ''server_a''"
    "RBT.lookup (service_bridges_1_to_2 two_services) ''/b'' = Some ''server_b''"
    by (simp_all add: two_services_def lookup_one)
  have absent: "RBT.lookup (RBT.empty :: (string, (string, string) rbt) rbt) n = None" for n by simp
  note v = service_bridges_volatile[where env = flaky_shutdown and ros1_publishers = RBT.empty
      and ros1_subscribers = RBT.empty and ros2_publishers = RBT.empty and ros2_subscribers = RBT.empty
      and ros1_services = RBT.empty and ros2_services = RBT.empty and s = two_services
      and bridge_all_1to2_topics = False and bridge_all_2to1_topics = False
      and s' = two_services_removed]
  from v[of "''/c''"] flaky_pass absent
  have c: "RBT.lookup (service_bridges_2_to_1 two_services_removed) ''/c'' = None" by simp
  from v[of "''/a''"] flaky_pass absent
  have a: "RBT.lookup (service_bridges_1_to_2 two_services_removed) ''/a'' = None" by simp
  from v[of "''/b''"] flaky_pass absent
  have b: "RBT.lookup (service_bridges_1_to_2 two_services_removed) ''/b'' = None" by simp
  from services_well_formed_empty ok first flaky_pass before c a b show ?thesis by (intro conjI)
qed

text \<open>
  C3, at a failing input: \<^verbatim>\<open>/a\<close> and \<^verbatim>\<open>/b\<close> are registered in \<^verbatim>\<open>service_bridges_1_to_2\<close>
  and the \<^verbatim>\<open>ros2_services\<close> snapshot lists neither, so a pass has both to remove. The
  \<^verbatim>\<open>server.shutdown()\<close> of the bridge of \<^verbatim>\<open>/a\<close> throws at every call; that of \<^verbatim>\<open>/b\<close> never
  throws. The handler of lines 419-421 logs the error and does not advance the iterator, so
  the loop of lines 413-425 enters the entry of \<^verbatim>\<open>/a\<close> again and again: the pass does not
  return and the entry of \<^verbatim>\<open>/b\<close> is never removed.
\<close>

theorem shutdown_failure_blocks_removal:
  "RBT.lookup (service_bridges_1_to_2 two_services) ''/a'' = Some ''server_a'' \<and>
   RBT.lookup (service_bridges_1_to_2 two_services) ''/b'' = Some ''server_b'' \<and>
   RBT.lookup (RBT.empty :: (string, (string, string) rbt) rbt) ''/b'' = None \<and>
   \<not> server_shutdown_throws stuck_shutdown ''server_b'' 0 \<and>
   update_bridge stuck_shutdown RBT.empty RBT.empty RBT.empty RBT.empty RBT.empty RBT.empty
     two_services False False = None"
proof -
  have th: "\<forall>k. server_shutdown_throws stuck_shutdown ''server_a'' k"
    by (simp add: stuck_shutdown_def flaky_shutdown_def)
  have ob: "RBT.lookup (RBT.empty :: (string, (string, string) rbt) rbt) ''/a'' = None" by simp
  have "update_bridge stuck_shutdown RBT.empty RBT.empty RBT.empty RBT.empty RBT.empty RBT.empty
     two_services False False = None"
    by (simp add: update_bridge_def two_services_def entries_empty entries_one entries_two Let_def
        remove_obsolete_ros2_stuck[OF ob th])
  then show ?thesis
    by (simp add: two_services_def lookup_one stuck_shutdown_def flaky_shutdown_def)
qed

subsection \<open>Idempotence\<close>

lemma keys_entries: "set (RBT.keys t) = fst ` set (RBT.entries t)"
  by (simp add: RBT.keys_def_alt)

lemma in_place_1to2_step:
  "in_place_1to2 env subs all s p \<Longrightarrow> bridge_1to2_step env subs all p s = s"
  by (cases p) (auto split: option.splits)

lemma in_place_2to1_step:
  "in_place_2to1 env subs all s p \<Longrightarrow> bridge_2to1_step env subs all p s = s"
  by (cases p) (auto split: option.splits)

lemma fold_1to2_in_place:
  "\<forall>p \<in> set xs. in_place_1to2 env subs all s p \<Longrightarrow> fold (bridge_1to2_step env subs all) xs s = s"
  by (induction xs) (simp_all add: in_place_1to2_step)

lemma fold_2to1_in_place:
  "\<forall>p \<in> set xs. in_place_2to1 env subs all s p \<Longrightarrow> fold (bridge_2to1_step env subs all) xs s = s"
  by (induction xs) (simp_all add: in_place_2to1_step)

text \<open>
  C1. Reconciliation is idempotent. When the registry already reflects the snapshots, a
  pass returns, makes no call of the bridge factory, erases nothing and leaves the four
  maps as they are: its result is the registry it was given, whose record of calls is part
  of it.
\<close>

theorem update_bridge_idempotent:
  assumes "reflects env ros1_publishers ros1_subscribers ros2_publishers ros2_subscribers
             ros1_services ros2_services s bridge_all_1to2_topics bridge_all_2to1_topics"
  shows "update_bridge env ros1_publishers ros1_subscribers ros2_publishers ros2_subscribers
           ros1_services ros2_services s bridge_all_1to2_topics bridge_all_2to1_topics
         = Some (None, s)"
proof -
  from assms have t12: "\<forall>p \<in> set (RBT.entries ros1_publishers).
        in_place_1to2 env ros2_subscribers bridge_all_1to2_topics s p"
    and t21: "\<forall>p \<in> set (RBT.entries ros2_publishers).
        in_place_2to1 env ros1_subscribers bridge_all_2to1_topics s p"
    and s1: "\<forall>p \<in> set (RBT.entries ros1_services).
        RBT.lookup (service_bridges_2_to_1 s) (fst p) \<noteq> None \<or>
        RBT.lookup (service_bridges_1_to_2 s) (fst p) \<noteq> None"
    and s2: "\<forall>p \<in> set (RBT.entries ros2_services).
        RBT.lookup (service_bridges_2_to_1 s) (fst p) \<noteq> None \<or>
        RBT.lookup (service_bridges_1_to_2 s) (fst p) \<noteq> None"
    and o1: "\<forall>p \<in> set (RBT.entries (service_bridges_2_to_1 s)). RBT.lookup ros1_services (fst p) \<noteq> None"
    and o2: "\<forall>p \<in> set (RBT.entries (service_bridges_1_to_2 s)). RBT.lookup ros2_services (fst p) \<noteq> None"
    by (simp_all add: reflects_def keys_entries)
  have "fold (bridge_1to2_step env ros2_subscribers bridge_all_1to2_topics)
          (RBT.entries ros1_publishers) s = s"
    by (rule fold_1to2_in_place[OF t12])
  moreover have "fold (bridge_2to1_step env ros1_subscribers bridge_all_2to1_topics)
          (RBT.entries ros2_publishers) s = s"
    by (rule fold_2to1_in_place[OF t21])
  moreover have "create_ros1_services env (RBT.entries ros1_services) s = (None, s)"
    by (rule create_ros1_services_present[OF s1])
  moreover have "create_ros2_services env (RBT.entries ros2_services) s = (None, s)"
    by (rule create_ros2_services_present[OF s2])
  moreover have "remove_obsolete_ros1_services ros1_services (RBT.entries (service_bridges_2_to_1 s)) s = s"
    by (rule remove_obsolete_ros1_services_none[OF o1])
  moreover have "remove_obsolete_ros2_services env ros2_services
          (RBT.entries (service_bridges_1_to_2 s)) 0 s = Some s"
    by (rule remove_obsolete_ros2_services_none[OF o2])
  ultimately show ?thesis by (simp add: update_bridge_def Let_def)
qed

lemma keys_one: "RBT.keys (one k v) = [k]"
  by (simp add: RBT.keys_def_alt entries_one)

theorem update_bridge_idempotent_witness:
  "update_bridge always_bridge (one ''/scan'' ''LaserScan'') RBT.empty RBT.empty
     (one ''/scan'' ''LaserScanB2'') RBT.empty RBT.empty scan_registry False False
     = Some (None, scan_replaced) \<and>
   reflects always_bridge (one ''/scan'' ''LaserScan'') RBT.empty RBT.empty
     (one ''/scan'' ''LaserScanB2'') RBT.empty RBT.empty scan_replaced False False \<and>
   update_bridge always_bridge (one ''/scan'' ''LaserScan'') RBT.empty RBT.empty
     (one ''/scan'' ''LaserScanB2'') RBT.empty RBT.empty scan_replaced False False
     = Some (None, scan_replaced) \<and>
   reflects always_bridge (ros1_pubs ros2_offers) (ros1_subs ros2_offers) (ros2_pubs ros2_offers)
     (ros2_subs ros2_offers) (ros1_srvs ros2_offers) (ros2_srvs ros2_offers) add_1_to_2 False False \<and>
   update_bridge always_bridge (ros1_pubs ros2_offers) (ros1_subs ros2_offers) (ros2_pubs ros2_offers)
     (ros2_subs ros2_offers) (ros1_srvs ros2_offers) (ros2_srvs ros2_offers) add_1_to_2 False False
     = Some (None, add_1_to_2)"
proof -
  have r1: "reflects always_bridge (one ''/scan'' ''LaserScan'') RBT.empty RBT.empty
     (one ''/scan'' ''LaserScanB2'') RBT.empty RBT.empty scan_replaced False False"
    by (simp add: reflects_def entries_one entries_empty wanted_ros2_type_def lookup_one
        scan_replaced_def scan_registry_def scan_bridge_def)
  have r2: "reflects always_bridge (ros1_pubs ros2_offers) (ros1_subs ros2_offers) (ros2_pubs ros2_offers)
     (ros2_subs ros2_offers) (ros1_srvs ros2_offers) (ros2_srvs ros2_offers) add_1_to_2 False False"
    by (simp add: reflects_def ros2_offers_def idle_def add_service_def add_1_to_2_def
        entries_empty keys_one lookup_one)
  from update_bridge_idempotent[OF r1] update_bridge_idempotent[OF r2] r1 r2 scan_pass
  show ?thesis by (intro conjI)
qed

lemma extends_calls_squeeze:
  assumes "extends_calls s s1 P" and "extends_calls s1 s2 Q" and "calls s2 = calls s"
  shows "calls s1 = calls s"
proof -
  from assms(1,2) obtain a b where a: "calls s1 = calls s @ a" and b: "calls s2 = calls s1 @ b"
    unfolding extends_calls_def by blast
  from a b assms(3) have "calls s @ (a @ b) = calls s @ []" by simp
  then have "a @ b = []" by (simp only: same_append_eq)
  with a show ?thesis by simp
qed

lemma ros1_service_step_silent:
  assumes "ros1_service_step env p s = (None, s')" and "calls s' = calls s"
  shows "RBT.lookup (service_bridges_2_to_1 s) (fst p) \<noteq> None \<or>
         RBT.lookup (service_bridges_1_to_2 s) (fst p) \<noteq> None"
  using assms
  by (cases p) (auto simp: at_key_def split: if_splits option.splits sum.splits)

lemma ros2_service_step_silent:
  assumes "ros2_service_step env p s = (None, s')" and "calls s' = calls s"
  shows "RBT.lookup (service_bridges_2_to_1 s) (fst p) \<noteq> None \<or>
         RBT.lookup (service_bridges_1_to_2 s) (fst p) \<noteq> None"
  using assms
  by (cases p) (auto simp: at_key_def split: if_splits option.splits sum.splits)

lemma create_ros1_services_silent:
  assumes "create_ros1_services env xs s = (None, s')" and "calls s' = calls s"
  shows "\<forall>p \<in> set xs. RBT.lookup (service_bridges_2_to_1 s) (fst p) \<noteq> None \<or>
           RBT.lookup (service_bridges_1_to_2 s) (fst p) \<noteq> None"
  using assms
proof (induction xs)
  case Nil
  show ?case by simp
next
  case (Cons p xs)
  obtain e1 s1 where step: "ros1_service_step env p s = (e1, s1)" by (cases "ros1_service_step env p s")
  with Cons.prems(1) have e1: "e1 = None" by (cases e1) auto
  with Cons.prems(1) step have rest: "create_ros1_services env xs s1 = (None, s')" by simp
  have "extends_calls s s1 service_call" by (rule ros1_service_step_frame(4)[OF step])
  moreover from create_ros1_services_frame[OF rest] have "extends_calls s1 s' service_call" by simp
  ultimately have c1: "calls s1 = calls s" using Cons.prems(2) by (rule extends_calls_squeeze)
  from step e1 have step': "ros1_service_step env p s = (None, s1)" by simp
  have here: "RBT.lookup (service_bridges_2_to_1 s) (fst p) \<noteq> None \<or>
         RBT.lookup (service_bridges_1_to_2 s) (fst p) \<noteq> None"
    by (rule ros1_service_step_silent[OF step' c1])
  from ros1_service_step_present[OF here, of env] step' have "s1 = s" by simp
  with Cons.IH rest Cons.prems(2) here show ?case by simp
qed

lemma create_ros2_services_silent:
  assumes "create_ros2_services env xs s = (None, s')" and "calls s' = calls s"
  shows "\<forall>p \<in> set xs. RBT.lookup (service_bridges_2_to_1 s) (fst p) \<noteq> None \<or>
           RBT.lookup (service_bridges_1_to_2 s) (fst p) \<noteq> None"
  using assms
proof (induction xs)
  case Nil
  show ?case by simp
next
  case (Cons p xs)
  obtain e1 s1 where step: "ros2_service_step env p s = (e1, s1)" by (cases "ros2_service_step env p s")
  with Cons.prems(1) have e1: "e1 = None" by (cases e1) auto
  with Cons.prems(1) step have rest: "create_ros2_services env xs s1 = (None, s')" by simp
  have "extends_calls s s1 service_call" by (rule ros2_service_step_frame(4)[OF step])
  moreover from create_ros2_services_frame[OF rest] have "extends_calls s1 s' service_call" by simp
  ultimately have c1: "calls s1 = calls s" using Cons.prems(2) by (rule extends_calls_squeeze)
  from step e1 have step': "ros2_service_step env p s = (None, s1)" by simp
  have here: "RBT.lookup (service_bridges_2_to_1 s) (fst p) \<noteq> None \<or>
         RBT.lookup (service_bridges_1_to_2 s) (fst p) \<noteq> None"
    by (rule ros2_service_step_silent[OF step' c1])
  from ros2_service_step_present[OF here, of env] step' have "s1 = s" by simp
  with Cons.IH rest Cons.prems(2) here show ?case by simp
qed

lemma bridge_1to2_step_silent:
  assumes "calls (bridge_1to2_step env subs all p s) = calls s"
  shows "in_place_1to2 env subs all s p"
  using assms by (cases p) (auto simp: create_1to2_def split: option.splits sum.splits if_splits)

lemma bridge_2to1_step_silent:
  assumes "calls (bridge_2to1_step env subs all p s) = calls s"
  shows "in_place_2to1 env subs all s p"
  using assms by (cases p) (auto simp: create_2to1_def split: option.splits sum.splits if_splits)

lemma in_place_1to2_cong:
  "RBT.lookup (bridges_1to2 s) (fst p) = RBT.lookup (bridges_1to2 r) (fst p) \<Longrightarrow>
     in_place_1to2 env subs all s p = in_place_1to2 env subs all r p"
  by (cases p) (simp split: option.splits)

lemma in_place_2to1_cong:
  "RBT.lookup (bridges_2to1 s) (fst p) = RBT.lookup (bridges_2to1 r) (fst p) \<Longrightarrow>
     in_place_2to1 env subs all s p = in_place_2to1 env subs all r p"
  by (cases p) (simp split: option.splits)

lemma calls_of_pass_same: "calls_of_pass s s = []"
  by (simp add: calls_of_pass_def)

lemma calls_of_pass_Nil:
  "extends_calls s s' P \<Longrightarrow> calls_of_pass s s' = [] \<Longrightarrow> calls s' = calls s"
  by (auto simp: extends_calls_def calls_of_pass_def)

text \<open>
  The converse of idempotence: a registry that a pass returns as it was given, with no call added,
  reflects the snapshots. So the registries that reflect the snapshots are exactly those on
  which a pass does nothing.
\<close>

lemma update_bridge_fixed_point_reflects:
  assumes ub: "update_bridge env ros1_publishers ros1_subscribers ros2_publishers ros2_subscribers
           ros1_services ros2_services s bridge_all_1to2_topics bridge_all_2to1_topics
         = Some (None, s)"
  shows "reflects env ros1_publishers ros1_subscribers ros2_publishers ros2_subscribers
             ros1_services ros2_services s bridge_all_1to2_topics bridge_all_2to1_topics"
proof -
  let ?s1 = "fold (bridge_1to2_step env ros2_subscribers bridge_all_1to2_topics)
               (RBT.entries ros1_publishers) s"
  let ?s2 = "fold (bridge_2to1_step env ros1_subscribers bridge_all_2to1_topics)
               (RBT.entries ros2_publishers) ?s1"
  note ph = update_bridge_phases[OF ub]
  have t12: "in_place_1to2 env ros2_subscribers bridge_all_1to2_topics s p"
    if "p \<in> set (RBT.entries ros1_publishers)" for p
  proof -
    obtain n t1 where p: "p = (n, t1)" by (cases p)
    with that have pub: "RBT.lookup ros1_publishers n = Some t1" by (simp add: entry_of_lookup)
    from update_bridge_1to2_at[OF ub pub] obtain sA
      where sA: "RBT.lookup (bridges_1to2 sA) n = RBT.lookup (bridges_1to2 s) n"
        and c: "filter (topic_call_1to2 n) (calls_of_pass s s) =
             calls_of_pass sA (bridge_1to2_step env ros2_subscribers bridge_all_1to2_topics (n, t1) sA)"
      by blast
    from c have "calls_of_pass sA (bridge_1to2_step env ros2_subscribers bridge_all_1to2_topics (n, t1) sA) = []"
      by (simp add: calls_of_pass_same)
    with bridge_1to2_step_calls[of sA env ros2_subscribers bridge_all_1to2_topics "(n, t1)"]
    have "calls (bridge_1to2_step env ros2_subscribers bridge_all_1to2_topics (n, t1) sA) = calls sA"
      by (rule calls_of_pass_Nil)
    then have "in_place_1to2 env ros2_subscribers bridge_all_1to2_topics sA (n, t1)"
      by (rule bridge_1to2_step_silent)
    with sA p show ?thesis
      using in_place_1to2_cong[of sA "(n, t1)" s env ros2_subscribers bridge_all_1to2_topics] by simp
  qed
  have t21: "in_place_2to1 env ros1_subscribers bridge_all_2to1_topics s p"
    if "p \<in> set (RBT.entries ros2_publishers)" for p
  proof -
    obtain n t2 where p: "p = (n, t2)" by (cases p)
    with that have pub: "RBT.lookup ros2_publishers n = Some t2" by (simp add: entry_of_lookup)
    from update_bridge_2to1_at[OF ub pub] obtain sA
      where sA: "RBT.lookup (bridges_2to1 sA) n = RBT.lookup (bridges_2to1 s) n"
        and c: "filter (topic_call_2to1 n) (calls_of_pass s s) =
             calls_of_pass sA (bridge_2to1_step env ros1_subscribers bridge_all_2to1_topics (n, t2) sA)"
      by blast
    from c have "calls_of_pass sA (bridge_2to1_step env ros1_subscribers bridge_all_2to1_topics (n, t2) sA) = []"
      by (simp add: calls_of_pass_same)
    with bridge_2to1_step_calls[of sA env ros1_subscribers bridge_all_2to1_topics "(n, t2)"]
    have "calls (bridge_2to1_step env ros1_subscribers bridge_all_2to1_topics (n, t2) sA) = calls sA"
      by (rule calls_of_pass_Nil)
    then have "in_place_2to1 env ros1_subscribers bridge_all_2to1_topics sA (n, t2)"
      by (rule bridge_2to1_step_silent)
    with sA p show ?thesis
      using in_place_2to1_cong[of sA "(n, t2)" s env ros1_subscribers bridge_all_2to1_topics] by simp
  qed
  have s1: "?s1 = s" by (rule fold_1to2_in_place) (use t12 in blast)
  have s2: "fold (bridge_2to1_step env ros1_subscribers bridge_all_2to1_topics)
               (RBT.entries ros2_publishers) s = s"
    by (rule fold_2to1_in_place) (use t21 in blast)
  obtain e3 s3 where p3: "create_ros1_services env (RBT.entries ros1_services) s = (e3, s3)"
    by (cases "create_ros1_services env (RBT.entries ros1_services) s")
  from ub p3 have e3: "e3 = None"
    by (cases e3) (simp_all add: update_bridge_def s1 s2 Let_def)
  obtain e4 s4 where p4: "create_ros2_services env (RBT.entries ros2_services) s3 = (e4, s4)"
    by (cases "create_ros2_services env (RBT.entries ros2_services) s3")
  from ub p3 e3 p4 have e4: "e4 = None"
    by (cases e4) (simp_all add: update_bridge_def s1 s2 Let_def)
  let ?s5 = "remove_obsolete_ros1_services ros1_services (RBT.entries (service_bridges_2_to_1 s4)) s4"
  from ub p3 e3 p4 e4 have p6: "remove_obsolete_ros2_services env ros2_services
      (RBT.entries (service_bridges_1_to_2 ?s5)) 0 ?s5 = Some s"
    by (auto simp: update_bridge_def s1 s2 Let_def)
  have x3: "extends_calls s s3 service_call" using create_ros1_services_frame[OF p3] by simp
  have x4: "extends_calls s3 s4 service_call" using create_ros2_services_frame[OF p4] by simp
  have x5: "extends_calls s4 ?s5 service_call"
    using remove_obsolete_ros1_services_frame[of ros1_services "RBT.entries (service_bridges_2_to_1 s4)" s4]
    by simp
  have x6: "extends_calls ?s5 s service_call" using remove_obsolete_ros2_services_frame[OF p6] by simp
  from x4 x5 x6 have x46: "extends_calls s3 s service_call" by (meson extends_calls_trans)
  have c3: "calls s3 = calls s" by (rule extends_calls_squeeze[OF x3 x46]) simp
  from p3 e3 have p3': "create_ros1_services env (RBT.entries ros1_services) s = (None, s3)" by simp
  have srv1: "\<forall>p \<in> set (RBT.entries ros1_services).
      RBT.lookup (service_bridges_2_to_1 s) (fst p) \<noteq> None \<or>
      RBT.lookup (service_bridges_1_to_2 s) (fst p) \<noteq> None"
    by (rule create_ros1_services_silent[OF p3' c3])
  from create_ros1_services_present[OF srv1, of env] p3' have s3: "s3 = s" by simp
  from x5 x6 have x56: "extends_calls s4 s service_call" by (rule extends_calls_trans)
  from x4 have x4': "extends_calls s s4 service_call" by (simp add: s3)
  have c4: "calls s4 = calls s" by (rule extends_calls_squeeze[OF x4' x56]) simp
  from p4 e4 s3 have p4': "create_ros2_services env (RBT.entries ros2_services) s = (None, s4)" by simp
  have srv2: "\<forall>p \<in> set (RBT.entries ros2_services).
      RBT.lookup (service_bridges_2_to_1 s) (fst p) \<noteq> None \<or>
      RBT.lookup (service_bridges_1_to_2 s) (fst p) \<noteq> None"
    by (rule create_ros2_services_silent[OF p4' c4])
  have o1: "RBT.lookup ros1_services n \<noteq> None" if "n \<in> set (RBT.keys (service_bridges_2_to_1 s))" for n
  proof
    assume "RBT.lookup ros1_services n = None"
    from ph(5)[OF refl this] that show False by (simp add: keys_entries keys_of_entries)
  qed
  have o2: "RBT.lookup ros2_services n \<noteq> None" if "n \<in> set (RBT.keys (service_bridges_1_to_2 s))" for n
  proof
    assume "RBT.lookup ros2_services n = None"
    from ph(6)[OF refl this] that show False by (simp add: keys_entries keys_of_entries)
  qed
  from t12 t21 srv1 srv2 o1 o2 show ?thesis
    unfolding reflects_def keys_entries by (intro conjI ballI) auto
qed

subsection \<open>Service type probe\<close>

text \<open>
  The steps of the probe that fail cleanly: when the lookup, the connection or one of the
  two reads fails, or the parsed header has no \<^verbatim>\<open>type\<close> field, the function returns and
  the map has no entry for the name (given that it had none before the call).
\<close>

lemma probe_failure_no_entry:
  assumes "RBT.lookup ros1_services name = None"
    and "lookupService ros1 name = None \<or>
         (\<exists>host port. lookupService ros1 name = Some (host, port) \<and>
            (\<not> transport_connect ros1 host port \<or>
             fst (read_length ros1) \<noteq> 4 \<or>
             fst (read_response ros1 (snd (read_length ros1))) < 0 \<or>
             word_of_int (fst (read_response ros1 (snd (read_length ros1)))) \<noteq> snd (read_length ros1) \<or>
             (\<exists>header_in. header_parse ros1 (snd (read_response ros1 (snd (read_length ros1))))
                             (snd (read_length ros1)) = Inr header_in \<and>
                          RBT.lookup header_in ''type'' = None)))"
  shows "\<exists>m. get_ros1_service_info ros1 name ros1_services = Inr m \<and> RBT.lookup m name = None"
  using assms
  by (auto simp: get_ros1_service_info_def split: option.splits prod.splits sum.splits)

text \<open>
  The step that does not: when the response cannot be parsed as a header, the function
  returns at line 483 with the empty descriptor of line 477 still in the map.
\<close>

lemma probe_parse_failure_entry:
  assumes "lookupService ros1 name = Some (host, port)" and "transport_connect ros1 host port"
    and "read_length ros1 = (4, len)" and "read_response ros1 len = (read2, response)"
    and "0 \<le> read2" and "word_of_int read2 = len"
    and "header_parse ros1 response len = Inl error_message"
  shows "get_ros1_service_info ros1 name ros1_services = Inr (RBT.insert name RBT.empty ros1_services)"
  using assms by (simp add: get_ros1_service_info_def)

text \<open>
  C9, at a failing input: the probe of \<^verbatim>\<open>/add\<close> reads a response that does not parse. The
  snapshot map then has \<^verbatim>\<open>/add\<close> with an empty descriptor, and a pass of \<^verbatim>\<open>update_bridge\<close>
  over this snapshot is left by the \<^verbatim>\<open>std::out_of_range\<close> of \<^verbatim>\<open>details.at("package")\<close>.
\<close>

theorem parse_failure_leaves_entry:
  "get_ros1_service_info (answering (Inl ''header is not terminated'')) ''/add'' RBT.empty
     = Inr (one ''/add'' RBT.empty) \<and>
   RBT.lookup (one ''/add'' (RBT.empty :: (string, string) rbt)) ''/add'' = Some RBT.empty \<and>
   update_bridge always_bridge RBT.empty RBT.empty RBT.empty RBT.empty
     (one ''/add'' RBT.empty) RBT.empty empty_registry False False
     = Some (Some Out_of_range, empty_registry)"
proof -
  have "get_ros1_service_info (answering (Inl ''header is not terminated'')) ''/add'' RBT.empty
     = Inr (one ''/add'' RBT.empty)"
    by (simp add: get_ros1_service_info_def answering_def one_def)
  moreover have "update_bridge always_bridge RBT.empty RBT.empty RBT.empty RBT.empty
     (one ''/add'' RBT.empty) RBT.empty (empty_registry :: (unit, unit, unit, unit) registry) False False
     = Some (Some Out_of_range, empty_registry)"
    by (simp add: update_bridge_def entries_empty entries_one empty_registry_def at_key_def Let_def)
  ultimately show ?thesis by (simp add: lookup_one)
qed

lemma find_first_None: "find_first c t = None \<longleftrightarrow> c \<notin> set t"
  by (induction t) auto

lemma find_first_Some: "find_first c t = Some i \<Longrightarrow> i < length t \<and> t ! i = c \<and> c \<notin> set (take i t)"
proof (induction t arbitrary: i)
  case Nil
  then show ?case by simp
next
  case (Cons x t)
  show ?case
  proof (cases "x = c")
    case True
    with Cons.prems show ?thesis by simp
  next
    case False
    with Cons.prems obtain j where j: "find_first c t = Some j" "i = Suc j" by auto
    from Cons.IH[OF j(1)] False j(2) show ?thesis by simp
  qed
qed

text \<open>
  Whenever the probe gets as far as a type string without a separator, it ends in the
  undefined iterator range; whenever the type has one, the descriptor gets the three keys.
\<close>

lemma probe_missing_separator:
  assumes "lookupService ros1 name = Some (host, port)" and "transport_connect ros1 host port"
    and "read_length ros1 = (4, len)" and "read_response ros1 len = (read2, response)"
    and "0 \<le> read2" and "word_of_int read2 = len"
    and "header_parse ros1 response len = Inr header_in"
    and "RBT.lookup header_in ''type'' = Some t" and "CHR ''/'' \<notin> set t"
  shows "get_ros1_service_info ros1 name ros1_services = Inl Invalid_iterator_range"
  using assms by (simp add: get_ros1_service_info_def split_type_def find_first_None[THEN iffD2])

text \<open>
  C10, at a failing input: the service answers with the type \<^verbatim>\<open>Empty\<close>, which has no
  separator. The probe does not return with a failure: it runs into the iterator range
  that starts at \<^verbatim>\<open>t.begin()\<close> and ends at \<^verbatim>\<open>t.begin() + npos\<close>. The counterpart of
  \<^verbatim>\<open>ros2_poll\<close> skips such a type and leaves the map as it is.
\<close>

theorem missing_separator_not_handled:
  "find_first CHR ''/'' ''Empty'' = None \<and>
   get_ros1_service_info (answering (Inr (one ''type'' ''Empty''))) ''/add'' RBT.empty
     = Inl Invalid_iterator_range \<and>
   ros2_service_entry ''/add'' ''Empty'' RBT.empty = RBT.empty"
  by (simp add: get_ros1_service_info_def answering_def lookup_one split_type_def
      ros2_service_entry_def)

lemma probe_with_separator:
  assumes "lookupService ros1 name = Some (host, port)" and "transport_connect ros1 host port"
    and "read_length ros1 = (4, len)" and "read_response ros1 len = (read2, response)"
    and "0 \<le> read2" and "word_of_int read2 = len"
    and "header_parse ros1 response len = Inr header_in"
    and "RBT.lookup header_in ''type'' = Some t" and "find_first CHR ''/'' t = Some i"
  shows "\<exists>m details. get_ros1_service_info ros1 name ros1_services = Inr m \<and>
           RBT.lookup m name = Some details \<and>
           RBT.lookup details ''type'' = Some t \<and>
           RBT.lookup details ''package'' = Some (take i t) \<and>
           RBT.lookup details ''name'' = Some (drop (Suc i) t)"
  using assms by (simp add: get_ros1_service_info_def split_type_def set_field_def)

subsection \<open>Names that failed the whitelist\<close>

lemma whitelist_gate_untouched:
  assumes "name \<in> already_ignored_topics f"
    and "whitelist_gate regex_match regex_list topic_name (f, active) = (f', active')"
  shows "untouched name f f' \<and> (name \<in> active' \<longleftrightarrow> name \<in> active)"
proof (cases "topic_name \<in> already_ignored_topics f")
  case True
  with assms show ?thesis by (simp add: untouched_def)
next
  case False
  with assms(1) have ne: "topic_name \<noteq> name" by blast
  obtain r k ev where c: "check_inregex_list regex_match regex_list topic_name (valid_topics f) = (r, k, ev)"
    by (cases "check_inregex_list regex_match regex_list topic_name (valid_topics f)")
  show ?thesis
  proof (cases r)
    case True
    with assms False c ne show ?thesis by (auto simp: untouched_def)
  next
    case r: False
    with assms False c ne show ?thesis by (auto simp: untouched_def)
  qed
qed

lemma ros1_topic_nodes_untouched:
  assumes "name \<in> already_ignored_topics f"
    and "ros1_topic_nodes regex_match regex_list this_node topic_name nodes (f, active) = (f', active')"
  shows "untouched name f f' \<and> (name \<in> active' \<longleftrightarrow> name \<in> active)"
  using assms
proof (induction nodes)
  case Nil
  then show ?case by (simp add: untouched_def)
next
  case (Cons node_name rest)
  show ?case
  proof (cases "node_name = this_node")
    case True
    with Cons show ?thesis by simp
  next
    case False
    with Cons.prems(2) have "whitelist_gate regex_match regex_list topic_name (f, active) = (f', active')"
      by simp
    from whitelist_gate_untouched[OF Cons.prems(1) this] show ?thesis .
  qed
qed

lemma ros1_scan_untouched:
  assumes "name \<in> already_ignored_topics f"
    and "ros1_scan regex_match regex_list this_node payload (f, active) = (f', active')"
  shows "untouched name f f' \<and> (name \<in> active' \<longleftrightarrow> name \<in> active)"
  using assms
proof (induction payload arbitrary: f active)
  case Nil
  then show ?case by (simp add: ros1_scan_def untouched_def)
next
  case (Cons p payload)
  obtain topic_name nodes where p: "p = (topic_name, nodes)" by (cases p)
  obtain f1 a1 where step: "ros1_topic_nodes regex_match regex_list this_node topic_name nodes (f, active)
      = (f1, a1)"
    by (cases "ros1_topic_nodes regex_match regex_list this_node topic_name nodes (f, active)")
  from ros1_topic_nodes_untouched[OF Cons.prems(1) step]
  have u1: "untouched name f f1" and a: "name \<in> a1 \<longleftrightarrow> name \<in> active" by simp_all
  from Cons.prems(2) p step have "ros1_scan regex_match regex_list this_node payload (f1, a1) = (f', active')"
    by (simp add: ros1_scan_def)
  from Cons.IH[OF _ this] u1 have "untouched name f1 f' \<and> (name \<in> active' \<longleftrightarrow> name \<in> a1)"
    by (simp add: untouched_def)
  with u1 a show ?case by (simp add: untouched_def)
qed

lemma ros2_topic_step_untouched:
  assumes "name \<in> already_ignored_topics f"
    and "ros2_topic_step regex_match regex_list count_publishers count_subscribers s p (f, pubs, subs)
           = Inr (f', pubs', subs')"
  shows "untouched name f f' \<and> RBT.lookup pubs' name = RBT.lookup pubs name \<and>
         RBT.lookup subs' name = RBT.lookup subs name"
proof -
  obtain topic_name types where p: "p = (topic_name, types)" by (cases p)
  show ?thesis
  proof (cases "topic_name = name")
    case True
    with assms p show ?thesis
      by (auto simp: untouched_def split: if_splits list.splits)
  next
    case False
    obtain r k ev where c: "check_inregex_list regex_match regex_list topic_name (valid_topics f) = (r, k, ev)"
      by (cases "check_inregex_list regex_match regex_list topic_name (valid_topics f)")
    from assms p False c show ?thesis
      by (cases r) (auto simp: untouched_def Let_def split: if_splits list.splits)
  qed
qed

lemma ros2_scan_untouched:
  assumes "name \<in> already_ignored_topics f"
    and "ros2_scan regex_match regex_list count_publishers count_subscribers s topics (f, pubs, subs)
           = Inr (f', pubs', subs')"
  shows "untouched name f f' \<and> RBT.lookup pubs' name = RBT.lookup pubs name \<and>
         RBT.lookup subs' name = RBT.lookup subs name"
  using assms
proof (induction topics arbitrary: f pubs subs)
  case Nil
  then show ?case by (simp add: untouched_def)
next
  case (Cons p topics)
  from Cons.prems(2) obtain f1 pubs1 subs1 where
    step: "ros2_topic_step regex_match regex_list count_publishers count_subscribers s p (f, pubs, subs)
             = Inr (f1, pubs1, subs1)"
    and rest: "ros2_scan regex_match regex_list count_publishers count_subscribers s topics (f1, pubs1, subs1)
             = Inr (f', pubs', subs')"
    by (auto split: sum.splits)
  from ros2_topic_step_untouched[OF Cons.prems(1) step]
  have u1: "untouched name f f1" and l: "RBT.lookup pubs1 name = RBT.lookup pubs name"
    "RBT.lookup subs1 name = RBT.lookup subs name" by simp_all
  from Cons.IH[OF _ rest] u1 have "untouched name f1 f' \<and> RBT.lookup pubs' name = RBT.lookup pubs1 name \<and>
         RBT.lookup subs' name = RBT.lookup subs1 name"
    by (simp add: untouched_def)
  with u1 l show ?case by (simp add: untouched_def)
qed

text \<open>
  C8. A name that fails the whitelist match in a poll is put in the
  already-ignored set of that poll lambda. From then on no scan of that lambda, whatever
  the pattern list, passes the name to the matcher or makes it active: the scan leaves the
  name in the set, adds no entry for it to the snapshot it builds, offers it to
  \<^verbatim>\<open>check_inregex_list\<close> no further time and prints no further line about it.
\<close>

theorem ignored_names_stay_ignored:
  "(name \<notin> already_ignored_topics f \<and>
    \<not> fst (check_inregex_list regex_match regex_list name (valid_topics f))
    \<longrightarrow> name \<in> already_ignored_topics (fst (whitelist_gate regex_match regex_list name (f, active))) \<and>
        (name \<notin> ignored_topics \<longrightarrow>
           (\<exists>f'. ros2_topic_step regex_match regex_list count_publishers count_subscribers s
                   (name, [topic_type]) (f, pubs, subs) = Inr (f', pubs, subs) \<and>
                 name \<in> already_ignored_topics f'))) \<and>
   (name \<in> already_ignored_topics g
    \<longrightarrow> (ros1_scan regex_match' regex_list' this_node payload (g, active') = (g', active'')
         \<longrightarrow> untouched name g g' \<and> (name \<in> active'' \<longleftrightarrow> name \<in> active')) \<and>
        (ros2_scan regex_match' regex_list' count_publishers' count_subscribers' s' topics
           (g, pubs', subs') = Inr (g'', pubs'', subs'')
         \<longrightarrow> untouched name g g'' \<and> RBT.lookup pubs'' name = RBT.lookup pubs' name \<and>
             RBT.lookup subs'' name = RBT.lookup subs' name))"
proof (intro conjI impI)
  assume a: "name \<notin> already_ignored_topics f \<and>
    \<not> fst (check_inregex_list regex_match regex_list name (valid_topics f))"
  obtain r k ev where c: "check_inregex_list regex_match regex_list name (valid_topics f) = (r, k, ev)"
    by (cases "check_inregex_list regex_match regex_list name (valid_topics f)")
  with a have r: "\<not> r" by simp
  from a c r show "name \<in> already_ignored_topics (fst (whitelist_gate regex_match regex_list name (f, active)))"
    by simp
  assume "name \<notin> ignored_topics"
  with a c r show "\<exists>f'. ros2_topic_step regex_match regex_list count_publishers count_subscribers s
                   (name, [topic_type]) (f, pubs, subs) = Inr (f', pubs, subs) \<and>
                 name \<in> already_ignored_topics f'"
    by simp
next
  assume "name \<in> already_ignored_topics g"
    and "ros1_scan regex_match' regex_list' this_node payload (g, active') = (g', active'')"
  from ros1_scan_untouched[OF this] show "untouched name g g'"
    and "name \<in> active'' \<longleftrightarrow> name \<in> active'" by simp_all
next
  assume "name \<in> already_ignored_topics g"
    and "ros2_scan regex_match' regex_list' count_publishers' count_subscribers' s' topics
           (g, pubs', subs') = Inr (g'', pubs'', subs'')"
  from ros2_scan_untouched[OF this] show "untouched name g g''"
    and "RBT.lookup pubs'' name = RBT.lookup pubs' name"
    and "RBT.lookup subs'' name = RBT.lookup subs' name" by simp_all
qed

lemma first_ros1_scan:
  "ros1_scan (\<lambda>name rgxp. name = rgxp) [] ''/ros12_bridge_default'' [(''/x'', [''/talker''])]
     (fresh_filter, {}) = (x_ignored, {})"
  by (simp add: ros1_scan_def check_inregex_list_def fresh_filter_def x_ignored_def)

lemma second_ros1_scan:
  "ros1_scan (\<lambda>name rgxp. name = rgxp) [''/x''] ''/ros12_bridge_default'' [(''/x'', [''/talker''])]
     (x_ignored, {}) = (x_ignored, {})"
  by (simp add: ros1_scan_def x_ignored_def)

lemma first_ros2_scan:
  "ros2_scan (\<lambda>name rgxp. name = rgxp) [] (\<lambda>topic. 1) (\<lambda>topic. 1)
     (empty_registry :: (unit, unit, unit, unit) registry) [(''/x'', [''std_msgs/msg/String''])]
     (fresh_filter, RBT.empty, RBT.empty) = Inr (x_ignored, RBT.empty, RBT.empty)"
  by (simp add: check_inregex_list_def fresh_filter_def x_ignored_def ignored_topics_def)

lemma second_ros2_scan:
  "ros2_scan (\<lambda>name rgxp. name = rgxp) [''/x''] (\<lambda>topic. 1) (\<lambda>topic. 1)
     (empty_registry :: (unit, unit, unit, unit) registry) [(''/x'', [''std_msgs/msg/String''])]
     (x_ignored, RBT.empty, RBT.empty) = Inr (x_ignored, RBT.empty, RBT.empty)"
  by (simp add: x_ignored_def ignored_topics_def)

theorem ignored_names_stay_ignored_witness:
  "''/x'' \<notin> already_ignored_topics fresh_filter \<and>
   \<not> fst (check_inregex_list (\<lambda>name rgxp. name = rgxp) [] ''/x'' (valid_topics fresh_filter)) \<and>
   ''/x'' \<in> already_ignored_topics
      (fst (whitelist_gate (\<lambda>name rgxp. name = rgxp) [] ''/x'' (fresh_filter, {}))) \<and>
   ''/x'' \<in> already_ignored_topics x_ignored \<and>
   ros1_scan (\<lambda>name rgxp. name = rgxp) [''/x''] ''/ros12_bridge_default'' [(''/x'', [''/talker''])]
     (x_ignored, {}) = (x_ignored, {}) \<and>
   ros2_scan (\<lambda>name rgxp. name = rgxp) [''/x''] (\<lambda>topic. 1) (\<lambda>topic. 1)
     (empty_registry :: (unit, unit, unit, unit) registry) [(''/x'', [''std_msgs/msg/String''])]
     (x_ignored, RBT.empty, RBT.empty) = Inr (x_ignored, RBT.empty, RBT.empty) \<and>
   untouched ''/x'' x_ignored x_ignored"
proof -
  have h1: "''/x'' \<notin> already_ignored_topics fresh_filter"
    and h2: "\<not> fst (check_inregex_list (\<lambda>name rgxp. name = rgxp) [] ''/x'' (valid_topics fresh_filter))"
    and h3: "''/x'' \<in> already_ignored_topics x_ignored"
    by (simp_all add: fresh_filter_def x_ignored_def check_inregex_list_def)
  note t = ignored_names_stay_ignored[where name = "''/x''" and f = fresh_filter
      and regex_match = "\<lambda>name rgxp. name = rgxp" and regex_list = "[]" and active = "{}"
      and g = x_ignored and regex_match' = "\<lambda>name rgxp. name = rgxp" and regex_list' = "[''/x'']"
      and this_node = "''/ros12_bridge_default''" and payload = "[(''/x'', [''/talker''])]"
      and active' = "{}" and g' = x_ignored and active'' = "{}"]
  from t h1 h2 have g: "''/x'' \<in> already_ignored_topics
      (fst (whitelist_gate (\<lambda>name rgxp. name = rgxp) [] ''/x'' (fresh_filter, {})))"
    by blast
  from t h3 second_ros1_scan have u: "untouched ''/x'' x_ignored x_ignored" by blast
  from h1 h2 g h3 second_ros1_scan second_ros2_scan u show ?thesis by (intro conjI)
qed

text \<open>
  A name is not offered to the matcher again: \<^verbatim>\<open>/x\<close> fails the match in a first poll (no pattern) and is put in
  the already-ignored set. In the next poll the pattern list would match it, but the scan
  of either domain passes it to the matcher no second time (\<open>offered\<close> still has the one
  entry of the first poll) and does not make it active.
\<close>

theorem ignored_names_counterexample:
  "ros1_scan (\<lambda>name rgxp. name = rgxp) [] ''/ros12_bridge_default'' [(''/x'', [''/talker''])]
     (fresh_filter, {}) = (x_ignored, {}) \<and>
   check_inregex_list (\<lambda>name rgxp. name = rgxp) [''/x''] ''/x'' (valid_topics x_ignored)
     = (True, {''/x''}, [''/x'']) \<and>
   ros1_scan (\<lambda>name rgxp. name = rgxp) [''/x''] ''/ros12_bridge_default'' [(''/x'', [''/talker''])]
     (x_ignored, {}) = (x_ignored, {}) \<and>
   offered x_ignored = [''/x''] \<and>
   ros2_scan (\<lambda>name rgxp. name = rgxp) [] (\<lambda>topic. 1) (\<lambda>topic. 1)
     (empty_registry :: (unit, unit, unit, unit) registry) [(''/x'', [''std_msgs/msg/String''])]
     (fresh_filter, RBT.empty, RBT.empty) = Inr (x_ignored, RBT.empty, RBT.empty) \<and>
   ros2_scan (\<lambda>name rgxp. name = rgxp) [''/x''] (\<lambda>topic. 1) (\<lambda>topic. 1)
     (empty_registry :: (unit, unit, unit, unit) registry) [(''/x'', [''std_msgs/msg/String''])]
     (x_ignored, RBT.empty, RBT.empty) = Inr (x_ignored, RBT.empty, RBT.empty)"
proof -
  have "check_inregex_list (\<lambda>name rgxp. name = rgxp) [''/x''] ''/x'' (valid_topics x_ignored)
     = (True, {''/x''}, [''/x''])"
    by (simp add: check_inregex_list_def x_ignored_def)
  moreover have "offered x_ignored = [''/x'']" by (simp add: x_ignored_def)
  ultimately show ?thesis
    using first_ros1_scan second_ros1_scan first_ros2_scan second_ros2_scan by (intro conjI)
qed

end
